theory Spec2Isabelle
  imports Main "HOL-Library.AList"
begin

section \<open>Strings as Python sees them\<close>

text \<open>
  The script \<^verbatim>\<open>scripts/generate_semantic_view.py\<close> works on Python \<^verbatim>\<open>str\<close> values.
  They are modelled as \<^typ>\<open>string\<close>, one \<^typ>\<open>char\<close> per character: a \<^typ>\<open>char\<close> is a
  character with a code point below 256, so the model covers the texts of such
  characters. On them \<^verbatim>\<open>str.lower\<close>, \<^verbatim>\<open>str.isspace\<close> (the class \<^verbatim>\<open>\s\<close> of \<^verbatim>\<open>re\<close>, the
  characters \<^verbatim>\<open>str.strip\<close> removes) and the digits \<^verbatim>\<open>\d\<close> are as defined below.
  \<^verbatim>\<open>str.upper\<close> leaves that range and changes lengths (\<^verbatim>\<open>'\xdf'.upper()\<close> is \<^verbatim>\<open>'SS'\<close>): it is
  a parameter \<open>upper\<close> of the generator, any function from strings to strings.
\<close>

text \<open>
  The upper-case letters below 256: \<^verbatim>\<open>A\<close> to \<^verbatim>\<open>Z\<close>, and 0xC0 to 0xDE without the
  multiplication sign 0xD7. Each has its lower-case letter 32 places further.
\<close>

definition is_upper :: "char \<Rightarrow> bool" where
  "is_upper c \<longleftrightarrow>
     (let n = (of_char c :: nat) in (65 \<le> n \<and> n \<le> 90) \<or> (192 \<le> n \<and> n \<le> 222 \<and> n \<noteq> 215))"

definition lower_char :: "char \<Rightarrow> char" where
  "lower_char c = (if is_upper c then char_of ((of_char c :: nat) + 32) else c)"

text \<open>\<^verbatim>\<open>s.lower()\<close>.\<close>

definition str_lower :: "string \<Rightarrow> string" where
  "str_lower s = map lower_char s"

text \<open>
  \<^verbatim>\<open>s.upper()\<close> for a text of ASCII characters, where it turns \<^verbatim>\<open>a\<close> to \<^verbatim>\<open>z\<close> into
  \<^verbatim>\<open>A\<close> to \<^verbatim>\<open>Z\<close>: the value of the parameter \<open>upper\<close> on such a text.
\<close>

definition ascii_upper :: "string \<Rightarrow> string" where
  "ascii_upper s =
     map (\<lambda>c. if 97 \<le> (of_char c :: nat) \<and> (of_char c :: nat) \<le> 122
              then char_of ((of_char c :: nat) - 32) else c) s"

text \<open>
  \<^verbatim>\<open>str.isspace\<close> on one character, which is also the class \<^verbatim>\<open>\s\<close>: tab, line feed,
  vertical tab, form feed, carriage return, the four separators 0x1C to 0x1F, space,
  next line (0x85) and no-break space (0xA0).
\<close>

definition is_space :: "char \<Rightarrow> bool" where
  "is_space c \<longleftrightarrow>
     (let n = (of_char c :: nat)
      in (9 \<le> n \<and> n \<le> 13) \<or> (28 \<le> n \<and> n \<le> 32) \<or> n = 133 \<or> n = 160)"

definition is_digit :: "char \<Rightarrow> bool" where
  "is_digit c \<longleftrightarrow> 48 \<le> (of_char c :: nat) \<and> (of_char c :: nat) \<le> 57"

text \<open>\<^verbatim>\<open>s.strip()\<close> with no argument.\<close>

definition strip :: "string \<Rightarrow> string" where
  "strip s = rev (dropWhile is_space (rev (dropWhile is_space s)))"

text \<open>\<^verbatim>\<open>s.startswith(p)\<close>.\<close>

definition startswith :: "string \<Rightarrow> string \<Rightarrow> bool" where
  "startswith s p \<longleftrightarrow> take (length p) s = p"

text \<open>\<^verbatim>\<open>sub in s\<close> for two strings.\<close>

fun str_contains :: "string \<Rightarrow> string \<Rightarrow> bool" where
  "str_contains sub [] = (sub = [])"
| "str_contains sub (c # cs) = (startswith (c # cs) sub \<or> str_contains sub cs)"

text \<open>
  \<^verbatim>\<open>s.split(sep)\<close>: the pieces between the occurrences of \<open>sep\<close>, found from the left and
  not overlapping. The script only splits at the literals \<^verbatim>\<open>','\<close>, \<^verbatim>\<open>' as '\<close> and
  \<^verbatim>\<open>'.'\<close>; the \<^verbatim>\<open>ValueError\<close> of an empty separator does not arise and \<open>split_from\<close>
  returns the text unsplit there.
\<close>

function split_from :: "string \<Rightarrow> string \<Rightarrow> string \<Rightarrow> string list" where
  "split_from sep acc s =
     (if sep \<noteq> [] \<and> s \<noteq> [] \<and> startswith s sep
      then rev acc # split_from sep [] (drop (length sep) s)
      else (case s of [] \<Rightarrow> [rev acc] | c # cs \<Rightarrow> split_from sep (c # acc) cs))"
  by pat_completeness auto
termination
  by (relation "measure (\<lambda>(sep, acc, s). length s)") auto

declare split_from.simps [simp del]

definition py_split :: "string \<Rightarrow> string \<Rightarrow> string list" where
  "py_split s sep = split_from sep [] s"

text \<open>\<^verbatim>\<open>s.replace(c, '')\<close> for a one-character \<open>c\<close>.\<close>

definition remove_char :: "char \<Rightarrow> string \<Rightarrow> string" where
  "remove_char c s = filter (\<lambda>x. x \<noteq> c) s"

text \<open>\<^verbatim>\<open>sep.join(parts)\<close>.\<close>

fun join :: "string \<Rightarrow> string list \<Rightarrow> string" where
  "join sep [] = []"
| "join sep [x] = x"
| "join sep (x # y # ys) = x @ sep @ join sep (y # ys)"

definition newline :: char where
  "newline = CHR 0x0A"

definition quote :: char where
  "quote = CHR 0x27"

definition dquote :: char where
  "dquote = CHR 0x22"

section \<open>The backtracking matcher of \<^verbatim>\<open>re\<close>\<close>

text \<open>
  The two patterns of the script use literals, the classes \<^verbatim>\<open>\s\<close>, \<^verbatim>\<open>\d\<close> and \<^verbatim>\<open>.\<close>
  (under \<^verbatim>\<open>re.DOTALL\<close>, any character), the greedy \<^verbatim>\<open>+\<close>, the lazy \<^verbatim>\<open>*?\<close>, one capturing
  group, alternation and \<^verbatim>\<open>$\<close>. \<open>backtrack\<close> is the matcher of \<^verbatim>\<open>re\<close> on that fragment,
  in continuation-passing style: it tries the alternatives in the order the library
  does (longest first for \<^verbatim>\<open>+\<close>, shortest first for \<^verbatim>\<open>*?\<close>, left before right for
  \<^verbatim>\<open>|\<close>) and returns the first one under which the rest of the pattern matches.
\<close>

datatype cls = Space | Digit | AnyChar

datatype regex =
    Lit string
  | Plus cls
  | LazyStar cls
  | Group regex
  | Seq regex regex
  | Alt regex regex
  | EndAnchor

fun cls_ok :: "cls \<Rightarrow> char \<Rightarrow> bool" where
  "cls_ok Space c = is_space c"
| "cls_ok Digit c = is_digit c"
| "cls_ok AnyChar c = True"

text \<open>A literal, compared without regard to case when \<^verbatim>\<open>re.IGNORECASE\<close> is set.\<close>

fun lit_match :: "bool \<Rightarrow> string \<Rightarrow> string \<Rightarrow> string option" where
  "lit_match ic [] s = Some s"
| "lit_match ic (p # ps) [] = None"
| "lit_match ic (p # ps) (c # cs) =
     (if (if ic then lower_char p = lower_char c else p = c) then lit_match ic ps cs else None)"

fun greedy_star :: "(char \<Rightarrow> bool) \<Rightarrow> (string \<Rightarrow> 'a option) \<Rightarrow> string \<Rightarrow> 'a option" where
  "greedy_star p k [] = k []"
| "greedy_star p k (c # cs) =
     (if p c then (case greedy_star p k cs of Some r \<Rightarrow> Some r | None \<Rightarrow> k (c # cs))
      else k (c # cs))"

fun lazy_star :: "(char \<Rightarrow> bool) \<Rightarrow> (string \<Rightarrow> 'a option) \<Rightarrow> string \<Rightarrow> 'a option" where
  "lazy_star p k [] = k []"
| "lazy_star p k (c # cs) =
     (case k (c # cs) of Some r \<Rightarrow> Some r
      | None \<Rightarrow> if p c then lazy_star p k cs else None)"

text \<open>
  The state of a match is the text still to be read and the groups captured so far;
  \<open>k\<close> is the rest of the pattern. \<^verbatim>\<open>$\<close> (without \<^verbatim>\<open>re.MULTILINE\<close>) holds at the end
  of the text and just before a line feed that ends it.
\<close>

primrec backtrack :: "bool \<Rightarrow> regex \<Rightarrow> (string \<Rightarrow> string list \<Rightarrow> 'a option) \<Rightarrow> string \<Rightarrow> string list \<Rightarrow> 'a option" where
  "backtrack ic (Lit l) k s g = (case lit_match ic l s of None \<Rightarrow> None | Some rest \<Rightarrow> k rest g)"
| "backtrack ic (Plus c) k s g =
     (case s of [] \<Rightarrow> None
      | x # xs \<Rightarrow> if cls_ok c x then greedy_star (cls_ok c) (\<lambda>rest. k rest g) xs else None)"
| "backtrack ic (LazyStar c) k s g = lazy_star (cls_ok c) (\<lambda>rest. k rest g) s"
| "backtrack ic (Group r) k s g =
     backtrack ic r (\<lambda>rest g'. k rest (g' @ [take (length s - length rest) s])) s g"
| "backtrack ic (Seq a b) k s g = backtrack ic a (backtrack ic b k) s g"
| "backtrack ic (Alt a b) k s g =
     (case backtrack ic a k s g of Some r \<Rightarrow> Some r | None \<Rightarrow> backtrack ic b k s g)"
| "backtrack ic EndAnchor k s g = (if s = [] \<or> s = [newline] then k s g else None)"

text \<open>A match that starts at the head of \<open>s\<close>: the text after it, and the groups.\<close>

definition match_here :: "bool \<Rightarrow> regex \<Rightarrow> string \<Rightarrow> (string \<times> string list) option" where
  "match_here ic r s = backtrack ic r (\<lambda>rest g. Some (rest, g)) s []"

text \<open>\<^verbatim>\<open>re.search\<close>: the match at the leftmost position that has one.\<close>

fun re_search :: "bool \<Rightarrow> regex \<Rightarrow> string \<Rightarrow> (string \<times> string list) option" where
  "re_search ic r [] = match_here ic r []"
| "re_search ic r (c # cs) =
     (case match_here ic r (c # cs) of Some m \<Rightarrow> Some m | None \<Rightarrow> re_search ic r cs)"

text \<open>
  \<^verbatim>\<open>re.findall\<close> for a pattern with one group: the group of every match, left to right,
  each search starting where the last match ended. A match of the script's pattern is
  never empty; after an empty match the search moves on by one character.
\<close>

function re_findall :: "bool \<Rightarrow> regex \<Rightarrow> string \<Rightarrow> string list" where
  "re_findall ic r s =
     (case match_here ic r s of
        None \<Rightarrow> (case s of [] \<Rightarrow> [] | c # cs \<Rightarrow> re_findall ic r cs)
      | Some (rest, g) \<Rightarrow>
          (if length rest < length s then last g # re_findall ic r rest
           else last g # (case s of [] \<Rightarrow> [] | c # cs \<Rightarrow> re_findall ic r cs)))"
  by pat_completeness auto
termination
  by (relation "measure (\<lambda>(ic, r, s). length s)") auto

declare re_findall.simps [simp del]

section \<open>Model Parser: \<^verbatim>\<open>parse_sql_file\<close>\<close>

text \<open>
  The pattern
  \<^verbatim>\<open>select\s+(.*?)\s+from\s+.*?(?:left\s+join|inner\s+join|$)\<close>,
  used with \<^verbatim>\<open>re.IGNORECASE | re.DOTALL\<close>; \<open>join_or_end\<close> is its last,
  non-capturing group.
\<close>

definition join_or_end :: regex where
  "join_or_end =
     Alt (Seq (Lit ''left'') (Seq (Plus Space) (Lit ''join'')))
       (Alt (Seq (Lit ''inner'') (Seq (Plus Space) (Lit ''join''))) EndAnchor)"

definition select_pattern :: regex where
  "select_pattern =
     Seq (Lit ''select'') (Seq (Plus Space) (Seq (Group (LazyStar AnyChar))
       (Seq (Plus Space) (Seq (Lit ''from'') (Seq (Plus Space)
         (Seq (LazyStar AnyChar) join_or_end))))))"

text \<open>The body of the loop over \<^verbatim>\<open>final_select.split(',')\<close>, up to the filter.\<close>

definition column_name :: "string \<Rightarrow> string" where
  "column_name item =
     (let line = strip item;
          col_name = (if str_contains '' as '' (str_lower line)
                      then strip (last (py_split (str_lower line) '' as ''))
                      else strip (last (py_split line ''.'')))
      in remove_char quote (remove_char dquote col_name))"

definition keep_column :: "string \<Rightarrow> bool" where
  "keep_column col_name \<longleftrightarrow> col_name \<noteq> [] \<and> \<not> startswith col_name ''--''"

definition extract_columns :: "string \<Rightarrow> string list" where
  "extract_columns content =
     (case re_findall True select_pattern content of
        [] \<Rightarrow> []
      | m # ms \<Rightarrow> filter keep_column (map column_name (py_split (last (m # ms)) '','')))"

text \<open>\<^verbatim>\<open>parse_sql_file\<close>, given the text read from the file.\<close>

definition parse_sql_file :: "string \<Rightarrow> string list \<times> string" where
  "parse_sql_file content = (extract_columns content, content)"

section \<open>Errors\<close>

text \<open>The exceptions the modelled functions can raise; a result is \<open>Inl\<close> of one of them or \<open>Inr\<close> of a value.\<close>

datatype error = KeyError | TypeError | AttributeError | YAMLError

section \<open>Metadata Loader: \<^verbatim>\<open>parse_model_yml\<close>\<close>

text \<open>
  What \<^verbatim>\<open>yaml.safe_load\<close> returns: \<^verbatim>\<open>None\<close>, a boolean, an integer, a string, a list
  or a dict. The parser itself is a library function and a parameter of the model.
  A dict is an association list in insertion order with distinct keys.
\<close>

datatype yaml = YNull | YBool bool | YInt int | YStr string | YSeq "yaml list" | YMap "(yaml \<times> yaml) list"

text \<open>The truth value of an object in a condition.\<close>

fun truthy :: "yaml \<Rightarrow> bool" where
  "truthy YNull = False"
| "truthy (YBool b) = b"
| "truthy (YInt n) = (n \<noteq> 0)"
| "truthy (YStr s) = (s \<noteq> [])"
| "truthy (YSeq xs) = (xs \<noteq> [])"
| "truthy (YMap m) = (m \<noteq> [])"

text \<open>\<^verbatim>\<open>key in x\<close> for a string \<open>key\<close>: needs a container, else \<^verbatim>\<open>TypeError\<close>.\<close>

fun py_in :: "string \<Rightarrow> yaml \<Rightarrow> error + bool" where
  "py_in key (YMap m) = Inr (YStr key \<in> set (map fst m))"
| "py_in key (YSeq xs) = Inr (YStr key \<in> set xs)"
| "py_in key (YStr s) = Inr (str_contains key s)"
| "py_in key YNull = Inl TypeError"
| "py_in key (YBool b) = Inl TypeError"
| "py_in key (YInt n) = Inl TypeError"

text \<open>\<^verbatim>\<open>x[key]\<close> for a string \<open>key\<close>.\<close>

fun py_getitem :: "yaml \<Rightarrow> string \<Rightarrow> error + yaml" where
  "py_getitem (YMap m) key = (case map_of m (YStr key) of None \<Rightarrow> Inl KeyError | Some v \<Rightarrow> Inr v)"
| "py_getitem (YSeq xs) key = Inl TypeError"
| "py_getitem (YStr s) key = Inl TypeError"
| "py_getitem YNull key = Inl TypeError"
| "py_getitem (YBool b) key = Inl TypeError"
| "py_getitem (YInt n) key = Inl TypeError"

text \<open>The elements a \<^verbatim>\<open>for\<close> loop over \<open>x\<close> visits: a dict yields its keys, a string its characters.\<close>

fun py_iter :: "yaml \<Rightarrow> error + yaml list" where
  "py_iter (YSeq xs) = Inr xs"
| "py_iter (YMap m) = Inr (map fst m)"
| "py_iter (YStr s) = Inr (map (\<lambda>c. YStr [c]) s)"
| "py_iter YNull = Inl TypeError"
| "py_iter (YBool b) = Inl TypeError"
| "py_iter (YInt n) = Inl TypeError"

text \<open>\<^verbatim>\<open>x.get(key, default)\<close>: a method of dicts only.\<close>

fun py_get :: "yaml \<Rightarrow> string \<Rightarrow> yaml \<Rightarrow> error + yaml" where
  "py_get (YMap m) key d = (case map_of m (YStr key) of None \<Rightarrow> Inr d | Some v \<Rightarrow> Inr v)"
| "py_get (YSeq xs) key d = Inl AttributeError"
| "py_get (YStr s) key d = Inl AttributeError"
| "py_get YNull key d = Inl AttributeError"
| "py_get (YBool b) key d = Inl AttributeError"
| "py_get (YInt n) key d = Inl AttributeError"

text \<open>\<^verbatim>\<open>x.lower()\<close>: a method of strings only.\<close>

fun py_lower :: "yaml \<Rightarrow> error + string" where
  "py_lower (YStr s) = Inr (str_lower s)"
| "py_lower (YSeq xs) = Inl AttributeError"
| "py_lower (YMap m) = Inl AttributeError"
| "py_lower YNull = Inl AttributeError"
| "py_lower (YBool b) = Inl AttributeError"
| "py_lower (YInt n) = Inl AttributeError"

text \<open>The loop over \<^verbatim>\<open>model['columns']\<close>; \<open>acc\<close> is \<^verbatim>\<open>column_descriptions\<close>.\<close>

fun add_columns :: "yaml list \<Rightarrow> (string \<times> yaml) list \<Rightarrow> error + (string \<times> yaml) list" where
  "add_columns [] acc = Inr acc"
| "add_columns (column # rest) acc =
     (case py_get column ''name'' (YStr []) of Inl e \<Rightarrow> Inl e | Inr nm \<Rightarrow>
      (case py_lower nm of Inl e \<Rightarrow> Inl e | Inr col_name \<Rightarrow>
       (case py_get column ''description'' (YStr []) of Inl e \<Rightarrow> Inl e | Inr description \<Rightarrow>
          add_columns rest
            (if col_name \<noteq> [] \<and> truthy description
             then AList.update col_name description acc else acc))))"

text \<open>The loop over \<^verbatim>\<open>config['models']\<close>.\<close>

fun add_models :: "yaml list \<Rightarrow> (string \<times> yaml) list \<Rightarrow> error + (string \<times> yaml) list" where
  "add_models [] acc = Inr acc"
| "add_models (model # rest) acc =
     (case py_in ''columns'' model of Inl e \<Rightarrow> Inl e
      | Inr False \<Rightarrow> add_models rest acc
      | Inr True \<Rightarrow>
         (case py_getitem model ''columns'' of Inl e \<Rightarrow> Inl e | Inr cols \<Rightarrow>
          (case py_iter cols of Inl e \<Rightarrow> Inl e | Inr cs \<Rightarrow>
           (case add_columns cs acc of Inl e \<Rightarrow> Inl e | Inr acc' \<Rightarrow> add_models rest acc'))))"

text \<open>The part of \<^verbatim>\<open>parse_model_yml\<close> after \<^verbatim>\<open>yaml.safe_load\<close>.\<close>

definition column_descriptions_of :: "yaml \<Rightarrow> error + (string \<times> yaml) list" where
  "column_descriptions_of config =
     (if truthy config then
        (case py_in ''models'' config of Inl e \<Rightarrow> Inl e
         | Inr False \<Rightarrow> Inr []
         | Inr True \<Rightarrow>
            (case py_getitem config ''models'' of Inl e \<Rightarrow> Inl e | Inr models \<Rightarrow>
             (case py_iter models of Inl e \<Rightarrow> Inl e | Inr ms \<Rightarrow> add_models ms [])))
      else Inr [])"

text \<open>
  \<^verbatim>\<open>parse_model_yml\<close>: \<open>fs\<close> maps the paths that exist to the text of the file,
  \<open>safe_load\<close> is \<^verbatim>\<open>yaml.safe_load\<close>.
\<close>

definition parse_model_yml ::
  "(string \<Rightarrow> error + yaml) \<Rightarrow> (string \<rightharpoonup> string) \<Rightarrow> string \<Rightarrow> error + (string \<times> yaml) list" where
  "parse_model_yml safe_load fs yml_path =
     (case fs yml_path of
        None \<Rightarrow> Inr []
      | Some text \<Rightarrow> (case safe_load text of Inl e \<Rightarrow> Inl e | Inr config \<Rightarrow> column_descriptions_of config))"

section \<open>View Generator: \<^verbatim>\<open>generate_semantic_view_sql\<close>\<close>

text \<open>
  The classification is the JSON object the service returned: the keys
  \<^verbatim>\<open>primary_keys\<close> and \<^verbatim>\<open>columns\<close> may be absent, and so may \<^verbatim>\<open>type\<close> and
  \<^verbatim>\<open>comment\<close> of a column. \<^verbatim>\<open>columns\<close> is a dict in insertion order.
\<close>

record col_info =
  info_type :: "string option"
  info_comment :: "string option"

record classification =
  primary_keys :: "string list option"
  columns :: "(string \<times> col_info) list option"

text \<open>
  \<^verbatim>\<open>[(col, info) for col, info in columns_info.items() if info['type'] == t]\<close>:
  \<^verbatim>\<open>info['type']\<close> raises \<^verbatim>\<open>KeyError\<close> at the first column without a type.
\<close>

fun select_type :: "string \<Rightarrow> (string \<times> col_info) list \<Rightarrow> error + (string \<times> col_info) list" where
  "select_type t [] = Inr []"
| "select_type t ((col, info) # rest) =
     (case info_type info of
        None \<Rightarrow> Inl KeyError
      | Some ty \<Rightarrow>
         (case select_type t rest of
            Inl e \<Rightarrow> Inl e
          | Inr xs \<Rightarrow> Inr (if ty = t then (col, info) # xs else xs)))"

text \<open>\<^verbatim>\<open>info.get('comment', '')\<close>.\<close>

definition comment_of :: "col_info \<Rightarrow> string" where
  "comment_of info = (case info_comment info of None \<Rightarrow> [] | Some c \<Rightarrow> c)"

text \<open>\<^verbatim>\<open>f"  model.{col.upper()} AS {col.upper()}"\<close>; \<open>upper\<close> is \<^verbatim>\<open>str.upper\<close>.\<close>

definition column_line :: "(string \<Rightarrow> string) \<Rightarrow> string \<Rightarrow> string" where
  "column_line upper col = ''  model.'' @ upper col @ '' AS '' @ upper col"

text \<open>\<^verbatim>\<open>f"    COMMENT = '{comment}'{comma}"\<close>.\<close>

definition comment_line :: "string \<Rightarrow> string \<Rightarrow> string" where
  "comment_line comment comma = ''    COMMENT = '' @ [quote] @ comment @ [quote] @ comma"

text \<open>The lines the loop over \<^verbatim>\<open>enumerate(facts)\<close> appends.\<close>

definition fact_lines :: "(string \<Rightarrow> string) \<Rightarrow> (string \<times> col_info) list \<Rightarrow> string list" where
  "fact_lines upper facts =
     concat (map (\<lambda>(i, (col, info)).
        (let comment = comment_of info;
             comma = (if i < length facts - 1 then '','' else [])
         in [column_line upper col, comment_line comment comma]))
       (enumerate 0 facts))"

text \<open>
  The lines the loop over \<^verbatim>\<open>enumerate(dimensions)\<close> appends: with an empty comment
  the comma goes onto the column line (\<^verbatim>\<open>sql_parts[-1] += comma\<close>).
\<close>

definition dimension_lines :: "(string \<Rightarrow> string) \<Rightarrow> (string \<times> col_info) list \<Rightarrow> string list" where
  "dimension_lines upper dimensions =
     concat (map (\<lambda>(i, (col, info)).
        (let comment = comment_of info;
             comma = (if i < length dimensions - 1 then '','' else [])
         in if comment \<noteq> [] then [column_line upper col, comment_line comment comma]
            else [column_line upper col @ comma]))
       (enumerate 0 dimensions))"

definition config_lines :: "string list" where
  "config_lines =
     [''{{ config('',
      ''  materialized = 'semantic_view','',
      ''  copy_grants = true'',
      '') }}'',
      []]"

text \<open>\<^verbatim>\<open>f"  model AS {{{{ ref('{ref_model_name}') }}}}"\<close>.\<close>

definition model_line :: "string \<Rightarrow> string" where
  "model_line ref_model_name = ''  model AS {{ ref('' @ [quote] @ ref_model_name @ [quote] @ '') }}''"

text \<open>\<^verbatim>\<open>f"    PRIMARY KEY ({pk_str})"\<close>.\<close>

definition pk_line :: "string \<Rightarrow> string" where
  "pk_line pk_str = ''    PRIMARY KEY ('' @ pk_str @ '')''"

definition overall_comment :: "string \<Rightarrow> string" where
  "overall_comment model_name =
     ''COMMENT = '' @ [quote] @ ''Semantic view for '' @ model_name
       @ '' model. Enables natural language queries via Cortex Analyst'' @ [quote]"

text \<open>\<^verbatim>\<open>classification.get('primary_keys', [])\<close> and \<^verbatim>\<open>classification.get('columns', {})\<close>.\<close>

definition primary_keys_of :: "classification \<Rightarrow> string list" where
  "primary_keys_of classification = (case primary_keys classification of None \<Rightarrow> [] | Some ks \<Rightarrow> ks)"

definition columns_info_of :: "classification \<Rightarrow> (string \<times> col_info) list" where
  "columns_info_of classification = (case columns classification of None \<Rightarrow> [] | Some cs \<Rightarrow> cs)"

text \<open>
  The list \<^verbatim>\<open>sql_parts\<close> at the end of \<^verbatim>\<open>generate_semantic_view_sql\<close>; \<open>upper\<close> is
  \<^verbatim>\<open>str.upper\<close>, used in \<^verbatim>\<open>[col.upper() for col in primary_keys]\<close>.
\<close>

definition sql_parts ::
  "(string \<Rightarrow> string) \<Rightarrow> string \<Rightarrow> classification \<Rightarrow> string \<Rightarrow> error + string list" where
  "sql_parts upper model_name classification ref_model_name =
     (let pks = primary_keys_of classification;
          columns_info = columns_info_of classification;
          pk_str = join '', '' (map upper pks);
          tables = [''TABLES ('', model_line ref_model_name]
                   @ (if pk_str \<noteq> [] then [pk_line pk_str] else [])
                   @ ['')'', []]
      in case select_type ''FACT'' columns_info of
           Inl e \<Rightarrow> Inl e
         | Inr facts \<Rightarrow>
            (case select_type ''DIMENSION'' columns_info of
               Inl e \<Rightarrow> Inl e
             | Inr dimensions \<Rightarrow>
                Inr (config_lines @ tables
                     @ (if facts \<noteq> [] then [''FACTS (''] @ fact_lines upper facts @ ['')'', []] else [])
                     @ (if dimensions \<noteq> [] then [''DIMENSIONS (''] @ dimension_lines upper dimensions @ ['')''] else [])
                     @ [overall_comment model_name])))"

text \<open>\<^verbatim>\<open>generate_semantic_view_sql\<close>: \<^verbatim>\<open>'\n'.join(sql_parts)\<close>.\<close>

definition generate_semantic_view_sql ::
  "(string \<Rightarrow> string) \<Rightarrow> string \<Rightarrow> classification \<Rightarrow> string \<Rightarrow> error + string" where
  "generate_semantic_view_sql upper model_name classification ref_model_name =
     (case sql_parts upper model_name classification ref_model_name of
        Inl e \<Rightarrow> Inl e
      | Inr parts \<Rightarrow> Inr (join [newline] parts))"

section \<open>Version Resolver and Writer\<close>

text \<open>
  \<^verbatim>\<open>Path.glob\<close> matches each file name of the directory against the pattern, as
  \<^verbatim>\<open>fnmatch\<close> does and with regard to case: \<^verbatim>\<open>*\<close> stands for any run of characters,
  \<^verbatim>\<open>?\<close> for any one character, \<^verbatim>\<open>[seq]\<close> for one character of \<open>seq\<close> and \<^verbatim>\<open>[!seq]\<close> for
  one character not in it. A \<^verbatim>\<open>[\<close> that no \<^verbatim>\<open>]\<close> closes stands for itself. The pattern
  is one path component, the model name being the stem of a file name; two stars in a
  row, which some versions of \<^verbatim>\<open>pathlib\<close> refuse inside a component, are taken as stars.
\<close>

text \<open>The index of the first \<^verbatim>\<open>]\<close>.\<close>

fun find_close :: "string \<Rightarrow> nat option" where
  "find_close [] = None"
| "find_close (c # cs) = (if c = CHR '']'' then Some 0 else map_option Suc (find_close cs))"

text \<open>
  The bracket expression at the head of \<open>s\<close>, the pattern after \<^verbatim>\<open>[\<close>: whether it is
  negated, its characters, and how much of \<open>s\<close> it takes, the closing \<^verbatim>\<open>]\<close> included.
  A \<^verbatim>\<open>]\<close> right after \<^verbatim>\<open>[\<close> or \<^verbatim>\<open>[!\<close> belongs to the characters.
\<close>

definition bracket :: "string \<Rightarrow> (bool \<times> string \<times> nat) option" where
  "bracket s =
     (let neg = (case s of [] \<Rightarrow> False | c # cs \<Rightarrow> c = CHR ''!'');
          i = (if neg then 1 else 0);
          k = (case drop i s of [] \<Rightarrow> 0 | c # cs \<Rightarrow> if c = CHR '']'' then 1 else 0)
      in case find_close (drop (i + k) s) of
           None \<Rightarrow> None
         | Some j \<Rightarrow> Some (neg, take (k + j) (drop i s), i + k + j + 1))"

text \<open>
  Whether \<open>x\<close> is one of the characters of a bracket expression: \<^verbatim>\<open>a-b\<close> is the range
  of the code points from \<open>a\<close> to \<open>b\<close>, empty when \<open>b\<close> is below \<open>a\<close>.
\<close>

fun in_class :: "string \<Rightarrow> char \<Rightarrow> bool" where
  "in_class (a # m # b # rest) x =
     (if m = CHR ''-''
      then ((of_char a :: nat) \<le> of_char x \<and> (of_char x :: nat) \<le> of_char b) \<or> in_class rest x
      else x = a \<or> in_class (m # b # rest) x)"
| "in_class (a # rest) x = (x = a \<or> in_class rest x)"
| "in_class [] x = False"

fun fnmatch :: "string \<Rightarrow> string \<Rightarrow> bool" where
  "fnmatch [] s = (s = [])"
| "fnmatch (p # ps) [] = (p = CHR ''*'' \<and> fnmatch ps [])"
| "fnmatch (p # ps) (c # cs) =
     (if p = CHR ''*'' then fnmatch ps (c # cs) \<or> fnmatch (p # ps) cs
      else if p = CHR ''?'' then fnmatch ps cs
      else if p = CHR ''['' then
        (case bracket ps of
           None \<Rightarrow> p = c \<and> fnmatch ps cs
         | Some (neg, stuff, n) \<Rightarrow> (in_class stuff c \<noteq> neg) \<and> fnmatch (drop n ps) cs)
      else p = c \<and> fnmatch ps cs)"

text \<open>The pattern \<^verbatim>\<open>_v(\d+)\.sql$\<close>, used with \<^verbatim>\<open>re.search\<close> and no flags.\<close>

definition version_pattern :: regex where
  "version_pattern = Seq (Lit ''_v'') (Seq (Group (Plus Digit)) (Seq (Lit ''.sql'') EndAnchor))"

text \<open>\<^verbatim>\<open>int(s)\<close> for a string of decimal digits.\<close>

definition int_of_digits :: "string \<Rightarrow> nat" where
  "int_of_digits s = fold (\<lambda>c n. 10 * n + ((of_char c :: nat) - 48)) s 0"

text \<open>\<^verbatim>\<open>str(n)\<close> for a natural number.\<close>

fun str_nat :: "nat \<Rightarrow> string" where
  "str_nat n = (if n < 10 then [char_of (48 + n)] else str_nat (n div 10) @ [char_of (48 + n mod 10)])"

declare str_nat.simps [simp del]

text \<open>The version the loop of \<^verbatim>\<open>get_next_version\<close> appends for one file name.\<close>

definition file_version :: "string \<Rightarrow> nat" where
  "file_version name =
     (case re_search False version_pattern name of
        Some (rest, g) \<Rightarrow> int_of_digits (last g)
      | None \<Rightarrow> 1)"

text \<open>
  \<^verbatim>\<open>get_next_version\<close>: \<open>names\<close> are the names of the files in \<^verbatim>\<open>models_dir\<close>, in the
  order the directory lists them.
\<close>

definition existing_files :: "string list \<Rightarrow> string \<Rightarrow> string list" where
  "existing_files names base_name = filter (fnmatch (base_name @ ''_semantic_view*.sql'')) names"

definition get_next_version :: "string list \<Rightarrow> string \<Rightarrow> nat" where
  "get_next_version names base_name =
     (let files = existing_files names base_name in
      if files = [] then 1
      else (case map file_version files of
              [] \<Rightarrow> 1
            | v # vs \<Rightarrow> fold max vs v + 1))"

text \<open>
  The output directory is an association list from file name to content. What the
  writer does is recorded as a list of events.
\<close>

type_synonym directory = "(string \<times> string) list"

datatype event = Print string | ReadFile string | WriteFile string string

definition output_file_name :: "string \<Rightarrow> nat \<Rightarrow> string" where
  "output_file_name model_name version =
     (if version = 1 then model_name @ ''_semantic_view.sql''
      else model_name @ ''_semantic_view_v'' @ str_nat version @ ''.sql'')"

text \<open>
  The end of the loop body of \<^verbatim>\<open>process_semantic_directory\<close>, from
  \<^verbatim>\<open>version = get_next_version(output_dir, model_name)\<close> on: the new directory and the
  events, in order.
\<close>

definition write_semantic_view :: "directory \<Rightarrow> string \<Rightarrow> string \<Rightarrow> directory \<times> event list" where
  "write_semantic_view output_dir model_name semantic_view_sql =
     (let version = get_next_version (map fst output_dir) model_name;
          output_file = output_file_name model_name version;
          (needs_update, log) =
            (if version > 1 then (True, [])
             else (case map_of output_dir output_file of
                     None \<Rightarrow> (True, [])
                   | Some existing_content \<Rightarrow>
                       if strip existing_content = strip semantic_view_sql
                       then (False, [ReadFile output_file, Print ''    Semantic view already up to date''])
                       else (True, [ReadFile output_file])))
      in if needs_update
         then (AList.update output_file semantic_view_sql output_dir,
               log @ [WriteFile output_file semantic_view_sql, Print (''    Generated '' @ output_file)])
         else (output_dir, log))"

section \<open>Notions the properties are stated with\<close>

text \<open>The columns of a classification whose type is \<open>t\<close>, in the order of the mapping.\<close>

definition classified :: "string \<Rightarrow> classification \<Rightarrow> (string \<times> col_info) list" where
  "classified t c = filter (\<lambda>(col, info). info_type info = Some t) (columns_info_of c)"

text \<open>Every column entry of the classification has a \<^verbatim>\<open>type\<close>.\<close>

definition all_typed :: "classification \<Rightarrow> bool" where
  "all_typed c = list_all (\<lambda>(col, info). info_type info \<noteq> None) (columns_info_of c)"

text \<open>A key clause line and a column-reference line of the artifact, told by how they begin.\<close>

definition is_pk_line :: "string \<Rightarrow> bool" where
  "is_pk_line l = startswith l ''    PRIMARY KEY (''"

definition is_column_line :: "string \<Rightarrow> bool" where
  "is_column_line l = startswith l ''  model.''"

text \<open>A string without upper-case letters.\<close>

definition lowercase :: "string \<Rightarrow> bool" where
  "lowercase s = list_all (\<lambda>c. \<not> is_upper c) s"

section \<open>Facts about the string functions\<close>

lemma lower_char_not_upper: "\<not> is_upper (lower_char c)"
proof (cases "is_upper c")
  case False
  then show ?thesis by (simp add: lower_char_def)
next
  case True
  then have "(of_char c :: nat) + 32 < 256" and "90 < (of_char c :: nat) + 32"
    and "(of_char c :: nat) + 32 < 192 \<or> 222 < (of_char c :: nat) + 32"
    by (auto simp: is_upper_def Let_def)
  then have "\<not> is_upper (char_of ((of_char c :: nat) + 32))"
    by (auto simp: is_upper_def Let_def)
  with True show ?thesis by (simp add: lower_char_def)
qed

lemma lowercase_str_lower: "lowercase (str_lower s)"
  by (simp add: lowercase_def str_lower_def list_all_iff lower_char_not_upper)

lemma str_lower_fixed: "lowercase s \<Longrightarrow> str_lower s = s"
  by (induction s) (auto simp: lowercase_def str_lower_def lower_char_def)

lemma lowercase_subset: "lowercase s \<Longrightarrow> set t \<subseteq> set s \<Longrightarrow> lowercase t"
  by (auto simp: lowercase_def list_all_iff)

lemma strip_chars: "set (strip s) \<subseteq> set s"
proof -
  have "set (dropWhile is_space (rev (dropWhile is_space s))) \<subseteq> set (rev (dropWhile is_space s))"
    by (meson set_dropWhileD subsetI)
  moreover have "set (dropWhile is_space s) \<subseteq> set s"
    by (meson set_dropWhileD subsetI)
  ultimately show ?thesis by (auto simp: strip_def)
qed

lemma remove_char_chars: "set (remove_char c s) \<subseteq> set s"
  by (auto simp: remove_char_def)

lemma split_from_chars: "x \<in> set (split_from sep acc s) \<Longrightarrow> set x \<subseteq> set acc \<union> set s"
proof (induction sep acc s arbitrary: x rule: split_from.induct)
  case (1 sep acc s)
  show ?case
  proof (cases "sep \<noteq> [] \<and> s \<noteq> [] \<and> startswith s sep")
    case True
    then have "split_from sep acc s = rev acc # split_from sep [] (drop (length sep) s)"
      by (subst split_from.simps) simp
    with "1.prems" have "x = rev acc \<or> x \<in> set (split_from sep [] (drop (length sep) s))"
      by simp
    then show ?thesis
    proof
      assume "x = rev acc"
      then show ?thesis by simp
    next
      assume "x \<in> set (split_from sep [] (drop (length sep) s))"
      then have "set x \<subseteq> set [] \<union> set (drop (length sep) s)"
        using "1.IH"(1) True by blast
      then show ?thesis
        using set_drop_subset by fastforce
    qed
  next
    case False
    show ?thesis
    proof (cases s)
      case Nil
      with False have "split_from sep acc s = [rev acc]"
        by (subst split_from.simps) simp
      with "1.prems" show ?thesis by simp
    next
      case (Cons c cs)
      with False have "split_from sep acc s = split_from sep (c # acc) cs"
        by (subst split_from.simps) auto
      with "1.prems" have "x \<in> set (split_from sep (c # acc) cs)" by simp
      then have "set x \<subseteq> set (c # acc) \<union> set cs"
        using "1.IH"(2) False Cons by blast
      with Cons show ?thesis by auto
    qed
  qed
qed

lemma split_from_nonempty: "split_from sep acc s \<noteq> []"
proof (induction sep acc s rule: split_from.induct)
  case (1 sep acc s)
  show ?case
  proof (cases "sep \<noteq> [] \<and> s \<noteq> [] \<and> startswith s sep")
    case True
    then show ?thesis by (subst split_from.simps) simp
  next
    case False
    show ?thesis
    proof (cases s)
      case Nil
      with False show ?thesis by (subst split_from.simps) simp
    next
      case (Cons c cs)
      with False have "split_from sep acc s = split_from sep (c # acc) cs"
        by (subst split_from.simps) auto
      with "1.IH"(2) False Cons show ?thesis by simp
    qed
  qed
qed

lemma last_split_chars: "set (last (py_split s sep)) \<subseteq> set s"
proof -
  have "last (split_from sep [] s) \<in> set (split_from sep [] s)"
    using split_from_nonempty by simp
  then show ?thesis
    using split_from_chars by (fastforce simp: py_split_def)
qed

text \<open>
  The branch of \<open>column_name\<close> for an item with an alias works on \<^verbatim>\<open>line.lower()\<close>,
  so what it returns has no upper-case letter.
\<close>

lemma column_name_alias_lowercase:
  assumes "str_contains '' as '' (str_lower (strip item))"
  shows "lowercase (column_name item)"
proof -
  let ?l = "str_lower (strip item)"
  have "column_name item = remove_char quote (remove_char dquote (strip (last (py_split ?l '' as ''))))"
    using assms by (simp add: column_name_def Let_def)
  then have "set (column_name item) \<subseteq> set (strip (last (py_split ?l '' as '')))"
    using remove_char_chars by (metis subset_trans)
  also have "\<dots> \<subseteq> set (last (py_split ?l '' as ''))"
    by (rule strip_chars)
  also have "\<dots> \<subseteq> set ?l"
    by (rule last_split_chars)
  finally show ?thesis
    using lowercase_str_lower lowercase_subset by blast
qed

section \<open>Facts about the matcher\<close>

lemma lit_match_suffix: "lit_match ic w s = Some rest \<Longrightarrow> set rest \<subseteq> set s"
  by (induction ic w s rule: lit_match.induct) (auto split: if_splits)

lemma plus_space_none:
  "\<forall>c\<in>set s. \<not> is_space c \<Longrightarrow> backtrack ic (Seq (Plus Space) r) k s g = None"
  by (cases s) auto

lemma word_space_none:
  assumes "\<forall>c\<in>set s. \<not> is_space c"
  shows "backtrack ic (Seq (Lit w) (Seq (Plus Space) r)) k s g = None"
proof (cases "lit_match ic w s")
  case None
  then show ?thesis by simp
next
  case (Some rest)
  with assms have "\<forall>c\<in>set rest. \<not> is_space c"
    using lit_match_suffix by blast
  then have "backtrack ic (Seq (Plus Space) r) k rest g = None"
    by (rule plus_space_none)
  with Some show ?thesis by simp
qed

text \<open>In a text without whitespace, \<open>join_or_end\<close> matches at the end only.\<close>

lemma join_or_end_none:
  assumes "\<forall>c\<in>set s. \<not> is_space c" and "s \<noteq> []"
  shows "backtrack ic join_or_end k s g = None"
proof -
  have "is_space newline" by (simp add: is_space_def newline_def)
  with assms have "s \<noteq> [newline]" by auto
  with assms show ?thesis
    unfolding join_or_end_def
    by (simp only: backtrack.simps(6) word_space_none[OF assms(1)] option.case backtrack.simps(7) if_False simp_thms)
qed

lemma join_or_end_nil: "backtrack True join_or_end k [] g = k [] g"
  by (simp add: join_or_end_def)

lemma lazy_tail:
  assumes "\<forall>c\<in>set tbl. \<not> is_space c"
  shows "lazy_star (cls_ok AnyChar) (\<lambda>rest. backtrack True join_or_end k rest g) tbl = k [] g"
  using assms
proof (induction tbl)
  case Nil
  show ?case by (simp add: join_or_end_nil)
next
  case (Cons c cs)
  then have "backtrack True join_or_end k (c # cs) g = None"
    by (intro join_or_end_none) auto
  with Cons show ?case by simp
qed

lemma greedy_none:
  "\<forall>c\<in>set tbl. \<not> is_space c \<Longrightarrow> greedy_star (cls_ok Space) k tbl = k tbl"
  by (cases tbl) auto

lemma re_findall_nil: "re_findall True select_pattern [] = []"
  by (subst re_findall.simps) (simp add: match_here_def select_pattern_def)

section \<open>Column extraction\<close>

lemma match_projection:
  assumes "\<forall>c\<in>set tbl. \<not> is_space c"
  shows "match_here True select_pattern (''select a.id, a.created_at as ts, b.name from '' @ tbl)
         = Some ([], [''a.id, a.created_at as ts, b.name''])"
  unfolding match_here_def select_pattern_def
  by (simp add: lazy_tail[OF assms] greedy_none[OF assms] lower_char_def is_upper_def is_space_def)

lemma findall_projection:
  assumes "\<forall>c\<in>set tbl. \<not> is_space c"
  shows "re_findall True select_pattern (''select a.id, a.created_at as ts, b.name from '' @ tbl)
         = [''a.id, a.created_at as ts, b.name'']"
proof -
  have "re_findall True select_pattern (''select a.id, a.created_at as ts, b.name from '' @ tbl)
        = last [''a.id, a.created_at as ts, b.name''] # re_findall True select_pattern []"
    by (subst re_findall.simps) (simp only: match_projection[OF assms] option.case prod.case, simp)
  then show ?thesis by (simp add: re_findall_nil)
qed

lemma projection_items:
  "filter keep_column (map column_name (py_split ''a.id, a.created_at as ts, b.name'' '',''))
   = [''id'', ''ts'', ''name'']"
  by code_simp

text \<open>
  C4. For the projection clause \<^verbatim>\<open>select a.id, a.created_at as ts, b.name from <table>\<close>,
  with any table name free of whitespace, the extraction returns exactly the list
  \<^verbatim>\<open>["id", "ts", "name"]\<close>, in that order.
\<close>

theorem column_extraction:
  assumes "\<forall>c\<in>set tbl. \<not> is_space c"
  shows "extract_columns (''select a.id, a.created_at as ts, b.name from '' @ tbl) = [''id'', ''ts'', ''name'']"
proof -
  have "extract_columns (''select a.id, a.created_at as ts, b.name from '' @ tbl)
        = filter keep_column (map column_name (py_split (last [''a.id, a.created_at as ts, b.name'']) '',''))"
    unfolding extract_columns_def
    by (simp only: findall_projection[OF assms] list.case)
  then show ?thesis
    by (simp add: projection_items)
qed

theorem column_extraction_witness:
  "list_all (\<lambda>c. \<not> is_space c) ''orders''
   \<and> extract_columns ''select a.id, a.created_at as ts, b.name from orders'' = [''id'', ''ts'', ''name'']"
proof -
  have h: "\<forall>c\<in>set ''orders''. \<not> is_space c"
    by (simp add: is_space_def)
  show ?thesis
    using h column_extraction[OF h] by (simp add: list_all_iff)
qed

text \<open>
  C2. Column names are not always lower-case: an item with an alias comes out lower-case
  (\<open>column_name_alias_lowercase\<close>), an item without one keeps the casing of the text.
  For \<^verbatim>\<open>select a.Id as Foo, b.Bar from t\<close> the extraction returns \<^verbatim>\<open>foo\<close> and \<^verbatim>\<open>Bar\<close>.
\<close>

theorem extraction_keeps_case:
  "extract_columns ''select a.Id as Foo, b.Bar from t'' = [''foo'', ''Bar'']
   \<and> \<not> lowercase ''Bar''"
  by code_simp

section \<open>Version resolution and writing\<close>

lemma fold_max_Max: "fold max vs (v::nat) = Max (set (v # vs))"
proof (induction vs arbitrary: v)
  case Nil
  show ?case by simp
next
  case (Cons a vs)
  have "fold max (a # vs) v = Max (set (max a v # vs))"
    using Cons by simp
  also have "\<dots> = Max (set (v # a # vs))"
    by (cases "vs = []") (auto simp: max.commute max.left_commute)
  finally show ?case .
qed

lemma get_next_version_Max:
  assumes "existing_files names base \<noteq> []"
  shows "get_next_version names base = Max (file_version ` set (existing_files names base)) + 1"
proof -
  obtain f fs where fs: "existing_files names base = f # fs"
    using assms by (cases "existing_files names base") auto
  then show ?thesis
    by (simp add: get_next_version_def fold_max_Max)
qed

lemma get_next_version_positive: "1 \<le> get_next_version names base"
  by (simp add: get_next_version_def Let_def split: list.splits)

lemma read_only_at_version_1:
  assumes "ReadFile p \<in> set (snd (write_semantic_view dir base sql))"
  shows "get_next_version (map fst dir) base = 1"
proof (rule ccontr)
  assume "get_next_version (map fst dir) base \<noteq> 1"
  then have "1 < get_next_version (map fst dir) base"
    using get_next_version_positive[of "map fst dir" base] by linarith
  then have "snd (write_semantic_view dir base sql)
             = [WriteFile (output_file_name base (get_next_version (map fst dir) base)) sql,
                Print (''    Generated '' @ output_file_name base (get_next_version (map fst dir) base))]"
    by (simp add: write_semantic_view_def Let_def)
  with assms show False by simp
qed

section \<open>Version suffixes\<close>

lemma lit_match_exact: "lit_match False w s = Some r \<longleftrightarrow> s = w @ r"
proof (induction w arbitrary: s)
  case Nil
  show ?case by auto
next
  case (Cons p ps)
  show ?case
  proof (cases s)
    case Nil
    then show ?thesis by simp
  next
    case (Cons c cs)
    with Cons.IH[of cs] show ?thesis by auto
  qed
qed

lemma greedy_star_sound:
  "greedy_star p k s = Some r \<Longrightarrow> \<exists>n\<le>length s. list_all p (take n s) \<and> k (drop n s) = Some r"
proof (induction s)
  case Nil
  then show ?case by simp
next
  case (Cons c cs)
  show ?case
  proof (cases "p c \<and> greedy_star p k cs \<noteq> None")
    case True
    with Cons.prems have "greedy_star p k cs = Some r" by auto
    from Cons.IH[OF this] obtain n where "n \<le> length cs" "list_all p (take n cs)" "k (drop n cs) = Some r"
      by blast
    with True have "Suc n \<le> length (c # cs) \<and> list_all p (take (Suc n) (c # cs))
        \<and> k (drop (Suc n) (c # cs)) = Some r"
      by simp
    then show ?thesis by blast
  next
    case False
    with Cons.prems have "k (c # cs) = Some r" by (auto split: if_splits)
    then have "0 \<le> length (c # cs) \<and> list_all p (take 0 (c # cs)) \<and> k (drop 0 (c # cs)) = Some r"
      by simp
    then show ?thesis by blast
  qed
qed

lemma greedy_star_longest:
  assumes "\<And>c cs. p c \<Longrightarrow> k (c # cs) = None"
  shows "greedy_star p k s = k (dropWhile p s)"
proof (induction s)
  case Nil
  show ?case by simp
next
  case (Cons c cs)
  show ?case
  proof (cases "p c")
    case False
    then show ?thesis by simp
  next
    case True
    with assms have "k (c # cs) = None" by blast
    with True Cons.IH show ?thesis
      by (cases "k (dropWhile p cs)") auto
  qed
qed

lemma re_search_sound:
  "re_search ic r s = Some m \<Longrightarrow> \<exists>pre suf. s = pre @ suf \<and> match_here ic r suf = Some m"
proof (induction s)
  case Nil
  then have "match_here ic r [] = Some m" by simp
  then show ?case
    by (intro exI[of _ "[]"]) simp
next
  case (Cons c cs)
  show ?case
  proof (cases "match_here ic r (c # cs)")
    case (Some m')
    with Cons.prems have "match_here ic r (c # cs) = Some m" by simp
    then show ?thesis
      by (intro exI[of _ "[]"] exI[of _ "c # cs"]) simp
  next
    case None
    with Cons.prems have "re_search ic r cs = Some m" by simp
    from Cons.IH[OF this] obtain pre suf where ps: "cs = pre @ suf" "match_here ic r suf = Some m"
      by auto
    show ?thesis
      by (intro exI[of _ "c # pre"] exI[of _ suf]) (simp add: ps)
  qed
qed

lemma re_search_complete:
  "match_here ic r suf = Some m \<Longrightarrow> \<exists>m'. re_search ic r (pre @ suf) = Some m'"
proof (induction pre)
  case Nil
  then show ?case by (cases suf) auto
next
  case (Cons a pre)
  then show ?case by (cases "match_here ic r (a # pre @ suf)") auto
qed

lemma cls_ok_Digit: "cls_ok Digit = is_digit"
  by (rule ext) simp

lemma digit_not_dot: "is_digit c \<Longrightarrow> c \<noteq> CHR ''.''"
  by (auto simp: is_digit_def)

lemma digit_not_v: "\<not> is_digit (CHR ''v'')"
  by (simp add: is_digit_def)

text \<open>What a successful match of each construct says, whatever the rest of the pattern is.\<close>

lemma backtrack_Seq: "backtrack ic (Seq a b) k = backtrack ic a (backtrack ic b k)"
  by (rule ext, rule ext) simp

lemma backtrack_Lit_elim:
  assumes "backtrack False (Lit l) k s g = Some r"
  shows "\<exists>rest. s = l @ rest \<and> k rest g = Some r"
proof (cases "lit_match False l s")
  case None
  with assms show ?thesis by simp
next
  case (Some rest)
  then have "s = l @ rest" by (simp only: lit_match_exact)
  moreover from assms Some have "k rest g = Some r" by simp
  ultimately show ?thesis by (intro exI[of _ rest]) simp
qed

lemma backtrack_Lit_append: "backtrack False (Lit l) k (l @ t) g = k t g"
proof -
  have "lit_match False l (l @ t) = Some t" by (simp only: lit_match_exact)
  then show ?thesis by simp
qed

lemma backtrack_EndAnchor_elim:
  assumes "backtrack ic EndAnchor k s g = Some r"
  shows "(s = [] \<or> s = [newline]) \<and> k s g = Some r"
  using assms by (auto split: if_splits)

lemma backtrack_Group_Plus_elim:
  assumes "backtrack ic (Group (Plus c)) k s g = Some r"
  shows "\<exists>n. 0 < n \<and> n \<le> length s \<and> list_all (cls_ok c) (take n s)
            \<and> k (drop n s) (g @ [take n s]) = Some r"
proof (cases s)
  case Nil
  with assms show ?thesis by simp
next
  case (Cons x xs)
  let ?k = "\<lambda>rest. k rest (g @ [take (length s - length rest) s])"
  from assms Cons have x: "cls_ok c x" and gs: "greedy_star (cls_ok c) ?k xs = Some r"
    by (auto split: if_splits)
  from greedy_star_sound[OF gs] obtain n where n: "n \<le> length xs"
    "list_all (cls_ok c) (take n xs)" "?k (drop n xs) = Some r"
    by auto
  have "length s - length (drop n xs) = Suc n"
    using n(1) Cons by simp
  with n(3) Cons have "k (drop (Suc n) s) (g @ [take (Suc n) s]) = Some r"
    by simp
  with n(1) n(2) x Cons show ?thesis
    by (intro exI[of _ "Suc n"]) simp
qed

lemma backtrack_Group_Plus_longest:
  assumes "ds \<noteq> []" and "list_all (cls_ok c) ds"
    and "t = [] \<or> \<not> cls_ok c (hd t)"
    and "\<And>y ys g'. cls_ok c y \<Longrightarrow> k (y # ys) g' = None"
  shows "backtrack ic (Group (Plus c)) k (ds @ t) g = k t (g @ [ds])"
proof -
  obtain x xs where ds: "ds = x # xs" using assms(1) by (cases ds) auto
  with assms(2) have x: "cls_ok c x" and xs: "list_all (cls_ok c) xs" by simp_all
  let ?s = "ds @ t"
  let ?k = "\<lambda>rest. k rest (g @ [take (length ?s - length rest) ?s])"
  have "greedy_star (cls_ok c) ?k (xs @ t) = ?k (dropWhile (cls_ok c) (xs @ t))"
    by (rule greedy_star_longest) (rule assms(4))
  moreover have "dropWhile (cls_ok c) (xs @ t) = t"
  proof -
    have "dropWhile (cls_ok c) (xs @ t) = dropWhile (cls_ok c) t"
      using xs by (simp add: dropWhile_append2 list_all_iff)
    also have "\<dots> = t"
      using assms(3) by (cases t) auto
    finally show ?thesis .
  qed
  ultimately have "greedy_star (cls_ok c) ?k (xs @ t) = k t (g @ [ds])"
    by simp
  with x ds show ?thesis by simp
qed

text \<open>What a match of \<open>version_pattern\<close> at the head of a text says about the text.\<close>

lemma version_match_sound:
  assumes "match_here False version_pattern s = Some (rest, g)"
  shows "\<exists>ds. ds \<noteq> [] \<and> list_all is_digit ds \<and> s = ''_v'' @ ds @ ''.sql'' @ rest
            \<and> (rest = [] \<or> rest = [newline]) \<and> g = [ds]"
proof -
  let ?k0 = "\<lambda>(rest :: string) (g :: string list). Some (rest, g)"
  let ?k3 = "backtrack False EndAnchor ?k0"
  let ?k2 = "backtrack False (Lit ''.sql'') ?k3"
  let ?k1 = "backtrack False (Group (Plus Digit)) ?k2"
  from assms have "backtrack False (Lit ''_v'') ?k1 s [] = Some (rest, g)"
    by (simp only: match_here_def version_pattern_def backtrack_Seq)
  from backtrack_Lit_elim[OF this] obtain r1 where r1: "s = ''_v'' @ r1"
    "?k1 r1 [] = Some (rest, g)"
    by auto
  from backtrack_Group_Plus_elim[OF r1(2)] obtain n where n: "0 < n" "n \<le> length r1"
    "list_all (cls_ok Digit) (take n r1)" "?k2 (drop n r1) ([] @ [take n r1]) = Some (rest, g)"
    by auto
  from backtrack_Lit_elim[OF n(4)] obtain r2 where r2: "drop n r1 = ''.sql'' @ r2"
    "?k3 r2 ([] @ [take n r1]) = Some (rest, g)"
    by auto
  from backtrack_EndAnchor_elim[OF r2(2)] have e: "r2 = [] \<or> r2 = [newline]"
    "rest = r2" "g = [take n r1]"
    by auto
  let ?ds = "take n r1"
  have 1: "?ds \<noteq> []" using n(1) n(2) by auto
  have 2: "list_all is_digit ?ds" using n(3) by (simp add: cls_ok_Digit)
  have "r1 = take n r1 @ drop n r1" by simp
  with r2(1) e(2) have "r1 = ?ds @ ''.sql'' @ rest" by simp
  with r1(1) have 3: "s = ''_v'' @ ?ds @ ''.sql'' @ rest" by simp
  from 1 2 3 e show ?thesis
    by (intro exI[of _ ?ds]) simp
qed

lemma version_match_complete:
  assumes "ds \<noteq> []" "list_all is_digit ds"
  shows "match_here False version_pattern (''_v'' @ ds @ ''.sql'') = Some ([], [ds])"
proof -
  let ?k0 = "\<lambda>(rest :: string) (g :: string list). Some (rest, g)"
  let ?k3 = "backtrack False EndAnchor ?k0"
  let ?k2 = "backtrack False (Lit ''.sql'') ?k3"
  let ?k1 = "backtrack False (Group (Plus Digit)) ?k2"
  have fail: "?k2 (y # ys) g' = None" if "cls_ok Digit y" for y ys g'
    using that digit_not_dot[of y] by auto
  have "match_here False version_pattern (''_v'' @ ds @ ''.sql'')
        = backtrack False (Lit ''_v'') ?k1 (''_v'' @ (ds @ ''.sql'')) []"
    by (simp only: match_here_def version_pattern_def backtrack_Seq)
  also have "\<dots> = ?k1 (ds @ ''.sql'') []"
    by (rule backtrack_Lit_append)
  also have "\<dots> = ?k2 ''.sql'' ([] @ [ds])"
  proof (rule backtrack_Group_Plus_longest)
    show "ds \<noteq> []" by (rule assms(1))
    show "list_all (cls_ok Digit) ds" using assms(2) by (simp add: cls_ok_Digit)
    show "''.sql'' = [] \<or> \<not> cls_ok Digit (hd ''.sql'')" by (simp add: is_digit_def)
    show "\<And>y ys g'. cls_ok Digit y \<Longrightarrow> ?k2 (y # ys) g' = None" by (rule fail)
  qed
  also have "\<dots> = Some ([], [ds])" by simp
  finally show ?thesis .
qed

lemma version_suffix_unique:
  assumes "stem @ ''_v'' @ ds @ ''.sql'' = stem' @ ''_v'' @ ds' @ ''.sql''"
    and "list_all is_digit ds" and "list_all is_digit ds'"
  shows "ds = ds'"
proof -
  from assms(1) have "(stem @ ''_v'' @ ds) @ ''.sql'' = (stem' @ ''_v'' @ ds') @ ''.sql''"
    by simp
  then have "stem @ ''_v'' @ ds = stem' @ ''_v'' @ ds'"
    by (simp only: append_same_eq)
  then have "rev (stem @ ''_v'' @ ds) = rev (stem' @ ''_v'' @ ds')" by simp
  then have e: "rev ds @ CHR ''v'' # CHR ''_'' # rev stem = rev ds' @ CHR ''v'' # CHR ''_'' # rev stem'"
    by simp
  have t: "takeWhile is_digit (rev zs @ CHR ''v'' # ys) = rev zs" if "list_all is_digit zs" for zs ys
    using that digit_not_v by (simp add: takeWhile_tail list_all_iff)
  from e have "takeWhile is_digit (rev ds @ CHR ''v'' # CHR ''_'' # rev stem)
             = takeWhile is_digit (rev ds' @ CHR ''v'' # CHR ''_'' # rev stem')"
    by simp
  with t[OF assms(2)] t[OF assms(3)] have "rev ds = rev ds'" by simp
  then show ?thesis by simp
qed

text \<open>
  The version of a file name: the number \<open>N\<close> after a final \<^verbatim>\<open>_v<N>.sql\<close>, and 1 for a
  name that ends in \<^verbatim>\<open>.sql\<close> without such a suffix.
\<close>

lemma file_version_suffix:
  assumes "ds \<noteq> []" "list_all is_digit ds"
  shows "file_version (stem @ ''_v'' @ ds @ ''.sql'') = int_of_digits ds"
proof -
  let ?name = "stem @ ''_v'' @ ds @ ''.sql''"
  from version_match_complete[OF assms]
  obtain m where "re_search False version_pattern (stem @ (''_v'' @ ds @ ''.sql'')) = Some m"
    using re_search_complete by blast
  then obtain rest g where m: "re_search False version_pattern ?name = Some (rest, g)"
    by (cases m) simp
  from re_search_sound[OF m] obtain pre suf where ps: "?name = pre @ suf"
    "match_here False version_pattern suf = Some (rest, g)"
    by auto
  from version_match_sound[OF ps(2)] obtain ds' where d: "ds' \<noteq> []" "list_all is_digit ds'"
    "suf = ''_v'' @ ds' @ ''.sql'' @ rest" "rest = [] \<or> rest = [newline]" "g = [ds']"
    by auto
  have "rest = []"
  proof (rule ccontr)
    assume "rest \<noteq> []"
    with d(4) have "rest = [newline]" by simp
    with ps(1) d(3) have "stem @ ''_v'' @ ds @ ''.sql'' = pre @ ''_v'' @ ds' @ ''.sql'' @ [newline]"
      by simp
    then have "last (stem @ ''_v'' @ ds @ ''.sql'') = last (pre @ ''_v'' @ ds' @ ''.sql'' @ [newline])"
      by simp
    then show False by (simp add: newline_def)
  qed
  with ps(1) d(3) have "stem @ ''_v'' @ ds @ ''.sql'' = pre @ ''_v'' @ ds' @ ''.sql''"
    by simp
  from version_suffix_unique[OF this assms(2) d(2)] have "ds = ds'" .
  with m d(5) show ?thesis
    by (simp add: file_version_def)
qed

lemma file_version_plain:
  assumes "\<not> (\<exists>stem ds. ds \<noteq> [] \<and> list_all is_digit ds \<and> body = stem @ ''_v'' @ ds)"
  shows "file_version (body @ ''.sql'') = 1"
proof (cases "re_search False version_pattern (body @ ''.sql'')")
  case None
  then show ?thesis by (simp add: file_version_def)
next
  case (Some m)
  obtain rest g where m: "m = (rest, g)" by (cases m)
  from re_search_sound[OF Some[unfolded m]] obtain pre suf where ps: "body @ ''.sql'' = pre @ suf"
    "match_here False version_pattern suf = Some (rest, g)"
    by auto
  from version_match_sound[OF ps(2)] obtain ds where d: "ds \<noteq> []" "list_all is_digit ds"
    "suf = ''_v'' @ ds @ ''.sql'' @ rest" "rest = [] \<or> rest = [newline]"
    by auto
  have "rest = []"
  proof (rule ccontr)
    assume "rest \<noteq> []"
    with d(4) have "rest = [newline]" by simp
    with ps(1) d(3) have "body @ ''.sql'' = pre @ ''_v'' @ ds @ ''.sql'' @ [newline]"
      by simp
    then have "last (body @ ''.sql'') = last (pre @ ''_v'' @ ds @ ''.sql'' @ [newline])"
      by simp
    then show False by (simp add: newline_def)
  qed
  with ps(1) d(3) have "body @ ''.sql'' = (pre @ ''_v'' @ ds) @ ''.sql''"
    by simp
  then have "body = pre @ ''_v'' @ ds"
    by (simp only: append_same_eq)
  with d(1) d(2) assms show ?thesis by blast
qed

text \<open>\<^verbatim>\<open>int(str(n))\<close> is \<open>n\<close>, and \<^verbatim>\<open>str(n)\<close> is a string of digits.\<close>

lemma int_of_digits_snoc:
  "int_of_digits (s @ [c]) = 10 * int_of_digits s + ((of_char c :: nat) - 48)"
  by (simp add: int_of_digits_def)

lemma str_nat_digits: "str_nat n \<noteq> [] \<and> list_all is_digit (str_nat n)"
proof (induction n rule: str_nat.induct)
  case (1 n)
  show ?case
  proof (cases "n < 10")
    case True
    then have "str_nat n = [char_of (48 + n)]" by (subst str_nat.simps) simp
    moreover from True have "is_digit (char_of (48 + n))" by (simp add: is_digit_def)
    ultimately show ?thesis by simp
  next
    case False
    then have e: "str_nat n = str_nat (n div 10) @ [char_of (48 + n mod 10)]"
      by (subst str_nat.simps) simp
    have "n mod 10 < 10" by simp
    then have "is_digit (char_of (48 + n mod 10))" by (simp add: is_digit_def)
    with "1.IH"[OF False] e show ?thesis by simp
  qed
qed

lemma int_of_digits_str_nat: "int_of_digits (str_nat n) = n"
proof (induction n rule: str_nat.induct)
  case (1 n)
  show ?case
  proof (cases "n < 10")
    case True
    then have "str_nat n = [char_of (48 + n)]" by (subst str_nat.simps) simp
    with True show ?thesis by (simp add: int_of_digits_def)
  next
    case False
    then have e: "str_nat n = str_nat (n div 10) @ [char_of (48 + n mod 10)]"
      by (subst str_nat.simps) simp
    have "n mod 10 < 10" by simp
    then have "(of_char (char_of (48 + n mod 10) :: char) :: nat) - 48 = n mod 10" by simp
    with "1.IH"[OF False] e show ?thesis
      by (simp only: int_of_digits_snoc) simp
  qed
qed

text \<open>
  C9, as amended. When at least one file matches \<^verbatim>\<open><base>_semantic_view*.sql\<close>, the next
  version is one plus the greatest version of the matching files. The version of a file
  named \<^verbatim>\<open><stem>_v<N>.sql\<close> is the number \<open>N\<close> its digits spell (\<^verbatim>\<open>int\<close> of them), and
  the version of a file named \<^verbatim>\<open><body>.sql\<close> whose body does not end in \<^verbatim>\<open>_v\<close> and digits
  is 1. So the next version is at least 2 exactly when some matching file has a version
  of at least 1, and it is 1 exactly when every matching file has version 0, as
  \<^verbatim>\<open>_v0\<close> gives. The content comparison of the version-1 path can only run when every
  matching file has version 0.
\<close>

theorem next_version_amended:
  assumes "existing_files (map fst dir) base \<noteq> []"
  shows "get_next_version (map fst dir) base
           = Max (file_version ` set (existing_files (map fst dir) base)) + 1
       \<and> (\<forall>stem n. file_version (stem @ ''_v'' @ str_nat n @ ''.sql'') = n)
       \<and> (\<forall>stem ds. ds \<noteq> [] \<and> list_all is_digit ds
             \<longrightarrow> file_version (stem @ ''_v'' @ ds @ ''.sql'') = int_of_digits ds)
       \<and> (\<forall>body. \<not> (\<exists>stem ds. ds \<noteq> [] \<and> list_all is_digit ds \<and> body = stem @ ''_v'' @ ds)
             \<longrightarrow> file_version (body @ ''.sql'') = 1)
       \<and> (2 \<le> get_next_version (map fst dir) base
            \<longleftrightarrow> (\<exists>f\<in>set (existing_files (map fst dir) base). 1 \<le> file_version f))
       \<and> (get_next_version (map fst dir) base = 1
            \<longleftrightarrow> (\<forall>f\<in>set (existing_files (map fst dir) base). file_version f = 0))
       \<and> (ReadFile p \<in> set (snd (write_semantic_view dir base sql))
            \<longrightarrow> (\<forall>f\<in>set (existing_files (map fst dir) base). file_version f = 0))"
proof -
  let ?fs = "existing_files (map fst dir) base"
  let ?V = "file_version ` set ?fs"
  have fin: "finite ?V" and ne: "?V \<noteq> {}"
    using assms by auto
  have eq: "get_next_version (map fst dir) base = Max ?V + 1"
    by (rule get_next_version_Max[OF assms])
  have numeral: "\<forall>stem n. file_version (stem @ ''_v'' @ str_nat n @ ''.sql'') = n"
  proof (intro allI)
    fix stem n
    have "file_version (stem @ ''_v'' @ str_nat n @ ''.sql'') = int_of_digits (str_nat n)"
      using str_nat_digits[of n] by (intro file_version_suffix) simp_all
    then show "file_version (stem @ ''_v'' @ str_nat n @ ''.sql'') = n"
      by (simp only: int_of_digits_str_nat)
  qed
  have suffix: "\<forall>stem ds. ds \<noteq> [] \<and> list_all is_digit ds
             \<longrightarrow> file_version (stem @ ''_v'' @ ds @ ''.sql'') = int_of_digits ds"
    using file_version_suffix by simp
  have plain: "\<forall>body. \<not> (\<exists>stem ds. ds \<noteq> [] \<and> list_all is_digit ds \<and> body = stem @ ''_v'' @ ds)
             \<longrightarrow> file_version (body @ ''.sql'') = 1"
    using file_version_plain by simp
  have two: "2 \<le> get_next_version (map fst dir) base \<longleftrightarrow> (\<exists>f\<in>set ?fs. 1 \<le> file_version f)"
  proof -
    have "2 \<le> Max ?V + 1 \<longleftrightarrow> 1 \<le> Max ?V" by linarith
    also have "\<dots> \<longleftrightarrow> (\<exists>v\<in>?V. 1 \<le> v)"
      using fin ne by (rule Max_ge_iff)
    finally show ?thesis using eq by auto
  qed
  have one: "get_next_version (map fst dir) base = 1 \<longleftrightarrow> (\<forall>f\<in>set ?fs. file_version f = 0)"
  proof -
    have "get_next_version (map fst dir) base = 1 \<longleftrightarrow> \<not> 2 \<le> get_next_version (map fst dir) base"
      using get_next_version_positive[of "map fst dir" base] by linarith
    moreover have "(\<forall>f\<in>set ?fs. file_version f = 0) \<longleftrightarrow> \<not> (\<exists>f\<in>set ?fs. 1 \<le> file_version f)"
      by (auto simp: not_le)
    ultimately show ?thesis using two by simp
  qed
  have rd: "ReadFile p \<in> set (snd (write_semantic_view dir base sql))
            \<longrightarrow> (\<forall>f\<in>set ?fs. file_version f = 0)"
  proof
    assume "ReadFile p \<in> set (snd (write_semantic_view dir base sql))"
    then have "get_next_version (map fst dir) base = 1"
      by (rule read_only_at_version_1)
    with one show "\<forall>f\<in>set ?fs. file_version f = 0" by simp
  qed
  show ?thesis
    by (intro conjI) (fact eq, fact numeral, fact suffix, fact plain, fact two, fact one, fact rd)
qed

text \<open>
  An instance in which the comparison runs: for the model \<^verbatim>\<open>mo[d]el\<close> the pattern
  \<^verbatim>\<open>mo[d]el_semantic_view*.sql\<close> matches \<^verbatim>\<open>model_semantic_view_v0.sql\<close> but not the
  model's own artifact \<^verbatim>\<open>mo[d]el_semantic_view.sql\<close>, so the next version is 1 and the
  artifact is read and compared.
\<close>

theorem next_version_amended_witness:
  "existing_files
      (map fst [(''model_semantic_view_v0.sql'', ''x''), (''mo[d]el_semantic_view.sql'', ''old'')])
      ''mo[d]el'' = [''model_semantic_view_v0.sql'']
   \<and> file_version ''model_semantic_view_v0.sql'' = 0
   \<and> get_next_version
      (map fst [(''model_semantic_view_v0.sql'', ''x''), (''mo[d]el_semantic_view.sql'', ''old'')])
      ''mo[d]el'' = 1
   \<and> snd (write_semantic_view
        [(''model_semantic_view_v0.sql'', ''x''), (''mo[d]el_semantic_view.sql'', ''old'')]
        ''mo[d]el'' ''new'')
      = [ReadFile ''mo[d]el_semantic_view.sql'', WriteFile ''mo[d]el_semantic_view.sql'' ''new'',
         Print ''    Generated mo[d]el_semantic_view.sql'']
   \<and> file_version (''model_semantic_view'' @ ''_v'' @ str_nat 12 @ ''.sql'') = 12"
proof -
  let ?dir = "[(''model_semantic_view_v0.sql'', ''x''), (''mo[d]el_semantic_view.sql'', ''old'')]"
  have e: "existing_files (map fst ?dir) ''mo[d]el'' = [''model_semantic_view_v0.sql'']"
    by code_simp
  have v: "file_version ''model_semantic_view_v0.sql'' = 0"
    by code_simp
  have w: "snd (write_semantic_view ?dir ''mo[d]el'' ''new'')
      = [ReadFile ''mo[d]el_semantic_view.sql'', WriteFile ''mo[d]el_semantic_view.sql'' ''new'',
         Print ''    Generated mo[d]el_semantic_view.sql'']"
    by code_simp
  have h: "existing_files (map fst ?dir) ''mo[d]el'' \<noteq> []"
    unfolding e by simp
  note t = next_version_amended[OF h, of "''mo[d]el_semantic_view.sql''" "''new''"]
  from t have "get_next_version (map fst ?dir) ''mo[d]el''
               = Max (file_version ` set (existing_files (map fst ?dir) ''mo[d]el'')) + 1"
    by (rule conjunct1)
  with e v have n: "get_next_version (map fst ?dir) ''mo[d]el'' = 1"
    by simp
  from t have "\<forall>stem n. file_version (stem @ ''_v'' @ str_nat n @ ''.sql'') = n"
    by (rule conjunct1[OF conjunct2])
  then have s: "file_version (''model_semantic_view'' @ ''_v'' @ str_nat 12 @ ''.sql'') = 12"
    by (rule allE[of _ "''model_semantic_view''"]) (erule allE[of _ 12])
  show ?thesis
    by (intro conjI) (fact e, fact v, fact n, fact w, fact s)
qed

text \<open>
  C9, as stated, fails: with the single file \<^verbatim>\<open>model_semantic_view_v0.sql\<close> in the
  directory a file matches, the next version is 1, and the version-1 path writes
  \<^verbatim>\<open>model_semantic_view.sql\<close>.
\<close>

theorem next_version_v0_counterexample:
  "existing_files [''model_semantic_view_v0.sql''] ''model'' = [''model_semantic_view_v0.sql'']
   \<and> get_next_version [''model_semantic_view_v0.sql''] ''model'' = 1
   \<and> write_semantic_view [(''model_semantic_view_v0.sql'', ''old'')] ''model'' ''new''
       = ([(''model_semantic_view_v0.sql'', ''old''), (''model_semantic_view.sql'', ''new'')],
          [WriteFile ''model_semantic_view.sql'' ''new'', Print ''    Generated model_semantic_view.sql''])"
  by code_simp

text \<open>
  C3. With exactly \<^verbatim>\<open>model_semantic_view.sql\<close> and \<^verbatim>\<open>model_semantic_view_v2.sql\<close> in the
  output directory, in either order and whatever they contain, the next version for
  \<^verbatim>\<open>model\<close> is 3, and the writer writes \<^verbatim>\<open>model_semantic_view_v3.sql\<close> with the rendered
  text and reads no file.
\<close>

theorem version_monotonicity:
  "get_next_version [''model_semantic_view.sql'', ''model_semantic_view_v2.sql''] ''model'' = 3
   \<and> get_next_version [''model_semantic_view_v2.sql'', ''model_semantic_view.sql''] ''model'' = 3
   \<and> write_semantic_view [(''model_semantic_view.sql'', c1), (''model_semantic_view_v2.sql'', c2)] ''model'' sql
       = ([(''model_semantic_view.sql'', c1), (''model_semantic_view_v2.sql'', c2),
           (''model_semantic_view_v3.sql'', sql)],
          [WriteFile ''model_semantic_view_v3.sql'' sql, Print ''    Generated model_semantic_view_v3.sql''])
   \<and> write_semantic_view [(''model_semantic_view_v2.sql'', c2), (''model_semantic_view.sql'', c1)] ''model'' sql
       = ([(''model_semantic_view_v2.sql'', c2), (''model_semantic_view.sql'', c1),
           (''model_semantic_view_v3.sql'', sql)],
          [WriteFile ''model_semantic_view_v3.sql'' sql, Print ''    Generated model_semantic_view_v3.sql''])"
  by code_simp

text \<open>
  C1. The second run is not idempotent. The first run, on a directory without artifacts
  of \<^verbatim>\<open>model\<close>, writes \<^verbatim>\<open>model_semantic_view.sql\<close>; the second run, with the same
  rendered text, finds that file, takes it for version 1, computes version 2 and writes
  \<^verbatim>\<open>model_semantic_view_v2.sql\<close>. It reads nothing and never prints
  \<^verbatim>\<open>Semantic view already up to date\<close>.
\<close>

theorem second_run_writes_v2:
  "write_semantic_view [] ''model'' sql
     = ([(''model_semantic_view.sql'', sql)],
        [WriteFile ''model_semantic_view.sql'' sql, Print ''    Generated model_semantic_view.sql''])
   \<and> write_semantic_view (fst (write_semantic_view [] ''model'' sql)) ''model'' sql
     = ([(''model_semantic_view.sql'', sql), (''model_semantic_view_v2.sql'', sql)],
        [WriteFile ''model_semantic_view_v2.sql'' sql, Print ''    Generated model_semantic_view_v2.sql''])"
  by code_simp

section \<open>Metadata loading\<close>

text \<open>
  C8, as amended. If the sidecar path does not exist the loader returns the empty mapping
  and raises nothing. A parsed document that is empty (\<^verbatim>\<open>None\<close>, or an empty mapping, or
  any other false object), or a mapping without the key \<^verbatim>\<open>models\<close>, or more generally a
  document in which \<^verbatim>\<open>'models' in config\<close> is false, gives the empty mapping as well.
  The other documents without a model collection raise \<^verbatim>\<open>TypeError\<close>: a number other
  than zero and \<^verbatim>\<open>True\<close>, on which \<^verbatim>\<open>in\<close> is not defined, and a mapping whose \<^verbatim>\<open>models\<close>
  entry is \<^verbatim>\<open>None\<close>, a number or a boolean, over which the loop cannot run.
\<close>

theorem missing_sidecar:
  "(fs p = None \<longrightarrow> parse_model_yml safe_load fs p = Inr [])
   \<and> (\<not> truthy config \<longrightarrow> column_descriptions_of config = Inr [])
   \<and> (YStr ''models'' \<notin> fst ` set m \<longrightarrow> column_descriptions_of (YMap m) = Inr [])
   \<and> (fs p = Some text \<and> safe_load text = Inr config
        \<and> (\<not> truthy config \<or> py_in ''models'' config = Inr False)
       \<longrightarrow> parse_model_yml safe_load fs p = Inr [])
   \<and> (n \<noteq> 0 \<longrightarrow> column_descriptions_of (YInt n) = Inl TypeError)
   \<and> column_descriptions_of (YBool True) = Inl TypeError
   \<and> (map_of ms (YStr ''models'') = Some v \<and> (v = YNull \<or> v \<in> range YInt \<or> v \<in> range YBool)
       \<longrightarrow> column_descriptions_of (YMap ms) = Inl TypeError)"
proof -
  have a: "fs p = None \<longrightarrow> parse_model_yml safe_load fs p = Inr []"
    by (simp add: parse_model_yml_def)
  have b: "\<not> truthy config \<longrightarrow> column_descriptions_of config = Inr []"
    by (simp add: column_descriptions_of_def)
  have c: "YStr ''models'' \<notin> fst ` set m \<longrightarrow> column_descriptions_of (YMap m) = Inr []"
    by (simp add: column_descriptions_of_def)
  have d: "fs p = Some text \<and> safe_load text = Inr config
        \<and> (\<not> truthy config \<or> py_in ''models'' config = Inr False)
       \<longrightarrow> parse_model_yml safe_load fs p = Inr []"
    by (auto simp: parse_model_yml_def column_descriptions_of_def)
  have e: "n \<noteq> 0 \<longrightarrow> column_descriptions_of (YInt n) = Inl TypeError"
    by (simp add: column_descriptions_of_def)
  have f: "column_descriptions_of (YBool True) = Inl TypeError"
    by (simp add: column_descriptions_of_def)
  have g: "map_of ms (YStr ''models'') = Some v \<and> (v = YNull \<or> v \<in> range YInt \<or> v \<in> range YBool)
       \<longrightarrow> column_descriptions_of (YMap ms) = Inl TypeError"
  proof
    assume h: "map_of ms (YStr ''models'') = Some v \<and> (v = YNull \<or> v \<in> range YInt \<or> v \<in> range YBool)"
    then have "(YStr ''models'', v) \<in> set ms"
      by (simp add: map_of_SomeD)
    then have i: "YStr ''models'' \<in> fst ` set ms" and j: "ms \<noteq> []"
      by force+
    from h have "py_iter v = Inl TypeError"
      by auto
    with h i j show "column_descriptions_of (YMap ms) = Inl TypeError"
      by (simp add: column_descriptions_of_def)
  qed
  show ?thesis
    by (intro conjI) (fact a, fact b, fact c, fact d, fact e, fact f, fact g)
qed

theorem missing_sidecar_witness:
  "parse_model_yml (\<lambda>t. Inl YAMLError) Map.empty ''orders.yml'' = Inr []
   \<and> column_descriptions_of YNull = Inr []
   \<and> column_descriptions_of (YMap [(YStr ''version'', YInt 2)]) = Inr []
   \<and> parse_model_yml (\<lambda>t. Inr (YMap [(YStr ''version'', YInt 2)]))
        [''orders.yml'' \<mapsto> ''version: 2''] ''orders.yml'' = Inr []
   \<and> column_descriptions_of (YInt 5) = Inl TypeError
   \<and> column_descriptions_of (YMap [(YStr ''version'', YInt 2), (YStr ''models'', YNull)]) = Inl TypeError"
proof -
  have m: "YStr ''models'' \<notin> fst ` set [(YStr ''version'', YInt 2)]"
    by simp
  have t: "py_in ''models'' (YMap [(YStr ''version'', YInt 2)]) = Inr False"
    by simp
  have k: "map_of [(YStr ''version'', YInt 2), (YStr ''models'', YNull)] (YStr ''models'') = Some YNull"
    by simp
  from missing_sidecar[of Map.empty "''orders.yml''" "\<lambda>t. Inl YAMLError" YNull "[(YStr ''version'', YInt 2)]"
      _ 5 "[(YStr ''version'', YInt 2), (YStr ''models'', YNull)]" YNull]
  have 1: "parse_model_yml (\<lambda>t. Inl YAMLError) Map.empty ''orders.yml'' = Inr []"
    and 2: "column_descriptions_of YNull = Inr []"
    and 3: "column_descriptions_of (YMap [(YStr ''version'', YInt 2)]) = Inr []"
    and 5: "column_descriptions_of (YInt 5) = Inl TypeError"
    and 6: "column_descriptions_of (YMap [(YStr ''version'', YInt 2), (YStr ''models'', YNull)]) = Inl TypeError"
    using m k by simp_all
  from missing_sidecar[of "[''orders.yml'' \<mapsto> ''version: 2'']" "''orders.yml''"
      "\<lambda>t. Inr (YMap [(YStr ''version'', YInt 2)])" "YMap [(YStr ''version'', YInt 2)]" "[]" "''version: 2''"]
  have 4: "parse_model_yml (\<lambda>t. Inr (YMap [(YStr ''version'', YInt 2)]))
        [''orders.yml'' \<mapsto> ''version: 2''] ''orders.yml'' = Inr []"
    using t by simp
  show ?thesis
    by (intro conjI) (fact 1, fact 2, fact 3, fact 4, fact 5, fact 6)
qed

text \<open>
  C8, as stated, fails: the documents \<^verbatim>\<open>5\<close> and \<^verbatim>\<open>models:\<close> (the key with no value) have no
  model collection, and for them the loader raises \<^verbatim>\<open>TypeError\<close> instead of returning the
  empty mapping.
\<close>

theorem missing_sidecar_counterexample:
  "truthy (YInt 5)
   \<and> column_descriptions_of (YInt 5) = Inl TypeError
   \<and> parse_model_yml (\<lambda>t. Inr (YInt 5)) [''orders.yml'' \<mapsto> ''5''] ''orders.yml'' = Inl TypeError
   \<and> column_descriptions_of (YMap [(YStr ''models'', YNull)]) = Inl TypeError
   \<and> parse_model_yml (\<lambda>t. Inr (YMap [(YStr ''models'', YNull)]))
        [''orders.yml'' \<mapsto> ''models:''] ''orders.yml'' = Inl TypeError"
  by (simp add: parse_model_yml_def column_descriptions_of_def)

section \<open>The shape of the rendered artifact\<close>

lemma select_type_Inr:
  "select_type t cols = Inr xs \<Longrightarrow>
     xs = filter (\<lambda>(col, info). info_type info = Some t) cols
     \<and> list_all (\<lambda>(col, info). info_type info \<noteq> None) cols"
proof (induction cols arbitrary: xs)
  case Nil
  then show ?case by simp
next
  case (Cons a cols)
  obtain col info where a: "a = (col, info)" by (cases a)
  from Cons.prems a obtain ty ys where ty: "info_type info = Some ty"
    and ys: "select_type t cols = Inr ys"
    and xs: "xs = (if ty = t then (col, info) # ys else ys)"
    by (auto split: option.splits sum.splits)
  from Cons.IH[OF ys] ty xs a show ?case by auto
qed

lemma select_type_typed:
  "list_all (\<lambda>(col, info). info_type info \<noteq> None) cols \<Longrightarrow>
     select_type t cols = Inr (filter (\<lambda>(col, info). info_type info = Some t) cols)"
  by (induction cols) auto

lemma select_type_untyped:
  "\<not> list_all (\<lambda>(col, info). info_type info \<noteq> None) cols \<Longrightarrow> select_type t cols = Inl KeyError"
proof (induction cols)
  case Nil
  then show ?case by simp
next
  case (Cons a cols)
  obtain col info where a: "a = (col, info)" by (cases a)
  show ?case
  proof (cases "info_type info")
    case None
    with a show ?thesis by simp
  next
    case (Some ty)
    with Cons a have "select_type t cols = Inl KeyError" by simp
    with Some a show ?thesis by simp
  qed
qed

text \<open>Rendering fails exactly on a column without a type, with \<^verbatim>\<open>KeyError\<close>.\<close>

lemma sql_parts_KeyError: "\<not> all_typed c \<Longrightarrow> sql_parts upper m c r = Inl KeyError"
  by (simp add: sql_parts_def Let_def all_typed_def select_type_untyped)

lemma sql_parts_layout:
  assumes "all_typed c"
  shows "sql_parts upper m c r =
     Inr (config_lines
          @ [''TABLES ('', model_line r]
          @ (if join '', '' (map upper (primary_keys_of c)) \<noteq> []
             then [pk_line (join '', '' (map upper (primary_keys_of c)))] else [])
          @ ['')'', []]
          @ (if classified ''FACT'' c \<noteq> []
             then [''FACTS (''] @ fact_lines upper (classified ''FACT'' c) @ ['')'', []] else [])
          @ (if classified ''DIMENSION'' c \<noteq> []
             then [''DIMENSIONS (''] @ dimension_lines upper (classified ''DIMENSION'' c) @ ['')''] else [])
          @ [overall_comment m])"
  using assms
  by (simp add: sql_parts_def Let_def all_typed_def classified_def select_type_typed)

lemma in_enumerate: "(i, x) \<in> set (enumerate n xs) \<Longrightarrow> x \<in> set xs"
  by (auto simp: in_set_enumerate_eq)

lemma fact_lines_member:
  assumes "l \<in> set (fact_lines upper facts)"
  shows "(\<exists>col info. (col, info) \<in> set facts \<and> l = column_line upper col)
         \<or> (\<exists>cm comma. l = comment_line cm comma)"
proof -
  from assms obtain i col info where m: "(i, (col, info)) \<in> set (enumerate 0 facts)"
    and l: "l = column_line upper col
            \<or> l = comment_line (comment_of info) (if i < length facts - 1 then '','' else [])"
    by (auto simp: fact_lines_def Let_def)
  from m have "(col, info) \<in> set facts" by (rule in_enumerate)
  with l show ?thesis by blast
qed

lemma dimension_lines_member:
  assumes "l \<in> set (dimension_lines upper dims)"
  shows "(\<exists>col info. (col, info) \<in> set dims \<and> (l = column_line upper col \<or> l = column_line upper col @ '',''))
         \<or> (\<exists>cm comma. l = comment_line cm comma)"
proof -
  from assms obtain i col info where m: "(i, (col, info)) \<in> set (enumerate 0 dims)"
    and l: "l = column_line upper col \<or> l = column_line upper col @ '',''
            \<or> l = comment_line (comment_of info) (if i < length dims - 1 then '','' else [])"
    by (auto simp: dimension_lines_def Let_def split: if_splits)
  from m have "(col, info) \<in> set dims" by (rule in_enumerate)
  with l show ?thesis by blast
qed

text \<open>Every line of the two loops begins with two spaces, so none of them is a section header.\<close>

lemma column_line_head: "\<exists>t. column_line upper col = CHR '' '' # CHR '' '' # t"
  by (simp add: column_line_def)

lemma comment_line_head: "\<exists>t. comment_line cm comma = CHR '' '' # CHR '' '' # t"
  by (simp add: comment_line_def)

lemma fact_lines_head: "l \<in> set (fact_lines upper facts) \<Longrightarrow> \<exists>t. l = CHR '' '' # CHR '' '' # t"
  using fact_lines_member[of l upper facts] column_line_head comment_line_head by metis

lemma dimension_lines_head: "l \<in> set (dimension_lines upper dims) \<Longrightarrow> \<exists>t. l = CHR '' '' # CHR '' '' # t"
proof -
  assume "l \<in> set (dimension_lines upper dims)"
  then consider col where "l = column_line upper col" | col where "l = column_line upper col @ '',''"
    | cm comma where "l = comment_line cm comma"
    using dimension_lines_member[of l upper dims] by blast
  then show ?thesis
    by cases (auto simp: column_line_def comment_line_def)
qed

lemma no_header_in_fact_lines:
  "''FACTS ('' \<notin> set (fact_lines upper facts)" "''DIMENSIONS ('' \<notin> set (fact_lines upper facts)"
  using fact_lines_head by fastforce+

lemma no_header_in_dimension_lines:
  "''FACTS ('' \<notin> set (dimension_lines upper dims)" "''DIMENSIONS ('' \<notin> set (dimension_lines upper dims)"
  using dimension_lines_head by fastforce+

lemma no_header_in_fixed_lines:
  "''FACTS ('' \<notin> set config_lines" "''DIMENSIONS ('' \<notin> set config_lines"
  "''FACTS ('' \<noteq> model_line r" "''DIMENSIONS ('' \<noteq> model_line r"
  "''FACTS ('' \<noteq> pk_line s" "''DIMENSIONS ('' \<noteq> pk_line s"
  "''FACTS ('' \<noteq> overall_comment m" "''DIMENSIONS ('' \<noteq> overall_comment m"
  by (simp_all add: config_lines_def model_line_def pk_line_def overall_comment_def)

section \<open>Telling the lines apart\<close>

lemma pk_line_is_pk_line: "is_pk_line (pk_line s)"
  by (simp add: is_pk_line_def pk_line_def startswith_def)

lemma other_lines_not_pk:
  "\<not> is_pk_line (column_line upper col)" "\<not> is_pk_line (column_line upper col @ '','')"
  "\<not> is_pk_line (comment_line cm comma)" "\<not> is_pk_line (model_line r)"
  "\<not> is_pk_line (overall_comment m)" "\<forall>l\<in>set config_lines. \<not> is_pk_line l"
  "\<not> is_pk_line ''TABLES (''" "\<not> is_pk_line '')''" "\<not> is_pk_line []"
  "\<not> is_pk_line ''FACTS (''" "\<not> is_pk_line ''DIMENSIONS (''"
  by (simp_all add: is_pk_line_def startswith_def column_line_def comment_line_def
        model_line_def overall_comment_def config_lines_def)

lemma not_pk_lines:
  assumes "l \<in> set config_lines \<or> l = ''TABLES ('' \<or> l = model_line r \<or> l = '')'' \<or> l = []
            \<or> l = ''FACTS ('' \<or> l \<in> set (fact_lines upper F)
            \<or> l = ''DIMENSIONS ('' \<or> l \<in> set (dimension_lines upper D)
            \<or> l = overall_comment m"
  shows "\<not> is_pk_line l"
proof -
  have f: "l \<in> set (fact_lines upper F) \<Longrightarrow> \<not> is_pk_line l"
    using fact_lines_member[of l upper F] other_lines_not_pk by auto
  have d: "l \<in> set (dimension_lines upper D) \<Longrightarrow> \<not> is_pk_line l"
    using dimension_lines_member[of l upper D] other_lines_not_pk by auto
  from assms f d other_lines_not_pk show ?thesis by blast
qed

lemma column_line_is_column_line:
  "is_column_line (column_line upper col)" "is_column_line (column_line upper col @ '','')"
  by (simp_all add: is_column_line_def startswith_def column_line_def)

lemma other_lines_not_column:
  "\<not> is_column_line (pk_line s)"
  "\<not> is_column_line (comment_line cm comma)" "\<not> is_column_line (model_line r)"
  "\<not> is_column_line (overall_comment m)" "\<forall>l\<in>set config_lines. \<not> is_column_line l"
  "\<not> is_column_line ''TABLES (''" "\<not> is_column_line '')''" "\<not> is_column_line []"
  "\<not> is_column_line ''FACTS (''" "\<not> is_column_line ''DIMENSIONS (''"
  by (simp_all add: is_column_line_def startswith_def pk_line_def comment_line_def
        model_line_def overall_comment_def config_lines_def)

section \<open>Sections of the artifact\<close>

text \<open>
  C5. For every classification whose columns all carry a type, rendering returns the list
  of lines of the artifact, and: with no column of type \<^verbatim>\<open>FACT\<close> no line is the header
  \<^verbatim>\<open>FACTS (\<close>; with no column of type \<^verbatim>\<open>DIMENSION\<close> no line is the header
  \<^verbatim>\<open>DIMENSIONS (\<close>; with columns of both types each header occurs once, \<^verbatim>\<open>FACTS (\<close>
  before \<^verbatim>\<open>DIMENSIONS (\<close>. (A classification with a column that has no type renders
  nothing: \<open>sql_parts_KeyError\<close>.)
\<close>

theorem section_omission:
  assumes "all_typed c"
  shows "\<exists>parts. sql_parts upper m c r = Inr parts
     \<and> generate_semantic_view_sql upper m c r = Inr (join [newline] parts)
     \<and> (classified ''FACT'' c = [] \<longrightarrow> ''FACTS ('' \<notin> set parts)
     \<and> (classified ''DIMENSION'' c = [] \<longrightarrow> ''DIMENSIONS ('' \<notin> set parts)
     \<and> (classified ''FACT'' c \<noteq> [] \<and> classified ''DIMENSION'' c \<noteq> [] \<longrightarrow>
          (\<exists>pre mid post. parts = pre @ [''FACTS (''] @ mid @ [''DIMENSIONS (''] @ post
             \<and> ''FACTS ('' \<notin> set pre \<union> set mid \<union> set post
             \<and> ''DIMENSIONS ('' \<notin> set pre \<union> set mid \<union> set post))"
proof -
  let ?pk = "join '', '' (map upper (primary_keys_of c))"
  let ?pre = "config_lines @ [''TABLES ('', model_line r]
              @ (if ?pk \<noteq> [] then [pk_line ?pk] else []) @ ['')'', []]"
  let ?F = "classified ''FACT'' c"
  let ?D = "classified ''DIMENSION'' c"
  let ?fb = "if ?F \<noteq> [] then [''FACTS (''] @ fact_lines upper ?F @ ['')'', []] else []"
  let ?db = "if ?D \<noteq> [] then [''DIMENSIONS (''] @ dimension_lines upper ?D @ ['')''] else []"
  let ?parts = "?pre @ ?fb @ ?db @ [overall_comment m]"
  have parts: "sql_parts upper m c r = Inr ?parts"
    using sql_parts_layout[OF assms, of upper m r] by simp
  have rendered: "generate_semantic_view_sql upper m c r = Inr (join [newline] ?parts)"
    by (simp only: generate_semantic_view_sql_def parts sum.case)
  have pre: "''FACTS ('' \<notin> set ?pre" "''DIMENSIONS ('' \<notin> set ?pre"
    using no_header_in_fixed_lines by auto
  have fl: "''FACTS ('' \<notin> set (fact_lines upper ?F)" "''DIMENSIONS ('' \<notin> set (fact_lines upper ?F)"
    by (rule no_header_in_fact_lines)+
  have dl: "''FACTS ('' \<notin> set (dimension_lines upper ?D)" "''DIMENSIONS ('' \<notin> set (dimension_lines upper ?D)"
    by (rule no_header_in_dimension_lines)+
  have oc: "''FACTS ('' \<noteq> overall_comment m" "''DIMENSIONS ('' \<noteq> overall_comment m"
    by (rule no_header_in_fixed_lines)+
  have nofact: "?F = [] \<longrightarrow> ''FACTS ('' \<notin> set ?parts"
    using pre dl oc by auto
  have nodim: "?D = [] \<longrightarrow> ''DIMENSIONS ('' \<notin> set ?parts"
    using pre fl oc by auto
  have both: "?F \<noteq> [] \<and> ?D \<noteq> [] \<longrightarrow>
          (\<exists>pre mid post. ?parts = pre @ [''FACTS (''] @ mid @ [''DIMENSIONS (''] @ post
             \<and> ''FACTS ('' \<notin> set pre \<union> set mid \<union> set post
             \<and> ''DIMENSIONS ('' \<notin> set pre \<union> set mid \<union> set post)"
  proof
    assume fd: "?F \<noteq> [] \<and> ?D \<noteq> []"
    let ?mid = "fact_lines upper ?F @ ['')'', []]"
    let ?post = "dimension_lines upper ?D @ ['')'', overall_comment m]"
    have "?parts = ?pre @ [''FACTS (''] @ ?mid @ [''DIMENSIONS (''] @ ?post"
      using fd by simp
    moreover have "''FACTS ('' \<notin> set ?pre \<union> set ?mid \<union> set ?post"
      using pre fl dl oc by auto
    moreover have "''DIMENSIONS ('' \<notin> set ?pre \<union> set ?mid \<union> set ?post"
      using pre fl dl oc by auto
    ultimately show "\<exists>pre mid post. ?parts = pre @ [''FACTS (''] @ mid @ [''DIMENSIONS (''] @ post
             \<and> ''FACTS ('' \<notin> set pre \<union> set mid \<union> set post
             \<and> ''DIMENSIONS ('' \<notin> set pre \<union> set mid \<union> set post"
      by blast
  qed
  from parts rendered nofact nodim both show ?thesis by blast
qed

theorem section_omission_witness:
  "all_typed \<lparr>primary_keys = Some [''id''],
              columns = Some [(''name'', \<lparr>info_type = Some ''DIMENSION'', info_comment = Some ''Customer name''\<rparr>)]\<rparr>
   \<and> classified ''FACT'' \<lparr>primary_keys = Some [''id''],
              columns = Some [(''name'', \<lparr>info_type = Some ''DIMENSION'', info_comment = Some ''Customer name''\<rparr>)]\<rparr> = []
   \<and> ''FACTS ('' \<notin> set (projr (sql_parts ascii_upper ''orders'' \<lparr>primary_keys = Some [''id''],
              columns = Some [(''name'', \<lparr>info_type = Some ''DIMENSION'', info_comment = Some ''Customer name''\<rparr>)]\<rparr> ''orders''))
   \<and> ''DIMENSIONS ('' \<in> set (projr (sql_parts ascii_upper ''orders'' \<lparr>primary_keys = Some [''id''],
              columns = Some [(''name'', \<lparr>info_type = Some ''DIMENSION'', info_comment = Some ''Customer name''\<rparr>)]\<rparr> ''orders''))"
proof -
  let ?c = "\<lparr>primary_keys = Some [''id''],
              columns = Some [(''name'', \<lparr>info_type = Some ''DIMENSION'', info_comment = Some ''Customer name''\<rparr>)]\<rparr>"
  have t: "all_typed ?c"
    by (simp add: all_typed_def columns_info_of_def)
  have f: "classified ''FACT'' ?c = []"
    by (simp add: classified_def columns_info_of_def)
  have d: "''DIMENSIONS ('' \<in> set (projr (sql_parts ascii_upper ''orders'' ?c ''orders''))"
    by code_simp
  from section_omission[OF t, of ascii_upper "''orders''" "''orders''"] f
  have "''FACTS ('' \<notin> set (projr (sql_parts ascii_upper ''orders'' ?c ''orders''))"
    by auto
  with t f d show ?thesis by blast
qed

section \<open>Degenerate classifications\<close>

lemma all_typed_no_columns: "columns c = None \<Longrightarrow> all_typed c"
  by (simp add: all_typed_def columns_info_of_def)

text \<open>
  C10, as amended. For the empty mapping the generator returns, without an error, the
  config block, a \<^verbatim>\<open>TABLES\<close> block without a key line and the final \<^verbatim>\<open>COMMENT\<close> line,
  and nothing else. An absent primary-key list is rendered as the empty list is, and
  an absent column mapping as the empty mapping is: without the column mapping there is
  no error, no \<^verbatim>\<open>FACTS\<close> and no \<^verbatim>\<open>DIMENSIONS\<close> header; without the primary-key list
  there is no key line whenever an artifact is rendered.
\<close>

theorem degenerate_classification:
  "sql_parts upper m \<lparr>primary_keys = None, columns = None\<rparr> r
     = Inr (config_lines @ [''TABLES ('', model_line r, '')'', [], overall_comment m])
   \<and> generate_semantic_view_sql upper m \<lparr>primary_keys = None, columns = None\<rparr> r
     = Inr (join [newline] (config_lines @ [''TABLES ('', model_line r, '')'', [], overall_comment m]))
   \<and> (primary_keys c = None \<longrightarrow> sql_parts upper m c r = sql_parts upper m (c\<lparr>primary_keys := Some []\<rparr>) r)
   \<and> (columns c = None \<longrightarrow> sql_parts upper m c r = sql_parts upper m (c\<lparr>columns := Some []\<rparr>) r)
   \<and> (columns c = None \<longrightarrow>
        (\<exists>parts. sql_parts upper m c r = Inr parts
           \<and> ''FACTS ('' \<notin> set parts \<and> ''DIMENSIONS ('' \<notin> set parts))
   \<and> (primary_keys c = None \<longrightarrow>
        (\<forall>parts. sql_parts upper m c r = Inr parts \<longrightarrow> filter is_pk_line parts = []))"
proof -
  have e: "sql_parts upper m \<lparr>primary_keys = None, columns = None\<rparr> r
     = Inr (config_lines @ [''TABLES ('', model_line r, '')'', [], overall_comment m])"
    by (simp add: sql_parts_def primary_keys_of_def columns_info_of_def)
  have g: "generate_semantic_view_sql upper m \<lparr>primary_keys = None, columns = None\<rparr> r
     = Inr (join [newline] (config_lines @ [''TABLES ('', model_line r, '')'', [], overall_comment m]))"
    by (simp only: generate_semantic_view_sql_def e sum.case)
  have p: "primary_keys c = None \<longrightarrow> sql_parts upper m c r = sql_parts upper m (c\<lparr>primary_keys := Some []\<rparr>) r"
    by (simp add: sql_parts_def primary_keys_of_def columns_info_of_def)
  have q: "columns c = None \<longrightarrow> sql_parts upper m c r = sql_parts upper m (c\<lparr>columns := Some []\<rparr>) r"
    by (simp add: sql_parts_def primary_keys_of_def columns_info_of_def)
  have s: "columns c = None \<longrightarrow>
        (\<exists>parts. sql_parts upper m c r = Inr parts
           \<and> ''FACTS ('' \<notin> set parts \<and> ''DIMENSIONS ('' \<notin> set parts)"
  proof
    assume n: "columns c = None"
    then have t: "all_typed c" by (rule all_typed_no_columns)
    from n have "classified ''FACT'' c = []" "classified ''DIMENSION'' c = []"
      by (simp_all add: classified_def columns_info_of_def)
    with sql_parts_layout[OF t, of upper m r] no_header_in_fixed_lines
    show "\<exists>parts. sql_parts upper m c r = Inr parts
           \<and> ''FACTS ('' \<notin> set parts \<and> ''DIMENSIONS ('' \<notin> set parts"
      by auto
  qed
  have k: "primary_keys c = None \<longrightarrow>
        (\<forall>parts. sql_parts upper m c r = Inr parts \<longrightarrow> filter is_pk_line parts = [])"
  proof (intro impI allI)
    fix parts
    assume n: "primary_keys c = None" and ps: "sql_parts upper m c r = Inr parts"
    have t: "all_typed c"
      using ps sql_parts_KeyError[of c upper m r] by auto
    have pk: "join '', '' (map upper (primary_keys_of c)) = []"
      using n by (simp add: primary_keys_of_def)
    have "\<forall>l\<in>set parts. \<not> is_pk_line l"
    proof
      fix l assume "l \<in> set parts"
      with ps sql_parts_layout[OF t, of upper m r] pk
      have "l \<in> set config_lines \<or> l = ''TABLES ('' \<or> l = model_line r \<or> l = '')'' \<or> l = []
            \<or> l = ''FACTS ('' \<or> l \<in> set (fact_lines upper (classified ''FACT'' c))
            \<or> l = ''DIMENSIONS ('' \<or> l \<in> set (dimension_lines upper (classified ''DIMENSION'' c))
            \<or> l = overall_comment m"
        by (auto split: if_splits)
      then show "\<not> is_pk_line l"
        using not_pk_lines by blast
    qed
    then show "filter is_pk_line parts = []"
      by (simp add: filter_empty_conv)
  qed
  from e g p q s k show ?thesis by blast
qed

theorem degenerate_classification_witness:
  "columns \<lparr>primary_keys = Some [''id''], columns = None\<rparr> = None
   \<and> sql_parts ascii_upper ''orders'' \<lparr>primary_keys = Some [''id''], columns = None\<rparr> ''orders''
       = sql_parts ascii_upper ''orders'' \<lparr>primary_keys = Some [''id''], columns = Some []\<rparr> ''orders''
   \<and> primary_keys \<lparr>primary_keys = None, columns = Some []\<rparr> = None
   \<and> sql_parts ascii_upper ''orders'' \<lparr>primary_keys = None, columns = Some []\<rparr> ''orders''
       = sql_parts ascii_upper ''orders'' \<lparr>primary_keys = Some [], columns = Some []\<rparr> ''orders''"
  using degenerate_classification[of ascii_upper "''orders''" "''orders''" "\<lparr>primary_keys = Some [''id''], columns = None\<rparr>"]
    degenerate_classification[of ascii_upper "''orders''" "''orders''" "\<lparr>primary_keys = None, columns = Some []\<rparr>"]
  by simp

text \<open>
  C10, as stated, fails. A classification without the primary-key list but with a column
  of type \<^verbatim>\<open>FACT\<close> is rendered with a \<^verbatim>\<open>FACTS\<close> block, and one whose column has no
  type is not rendered at all: \<^verbatim>\<open>info['type']\<close> raises \<^verbatim>\<open>KeyError\<close>.
\<close>

theorem degenerate_counterexample:
  "primary_keys \<lparr>primary_keys = None,
       columns = Some [(''amount'', \<lparr>info_type = Some ''FACT'', info_comment = None\<rparr>)]\<rparr> = None
   \<and> sql_parts ascii_upper ''orders'' \<lparr>primary_keys = None,
       columns = Some [(''amount'', \<lparr>info_type = Some ''FACT'', info_comment = None\<rparr>)]\<rparr> ''orders''
     = Inr (config_lines @ [''TABLES ('', model_line ''orders'', '')'', [],
            ''FACTS ('', ''  model.AMOUNT AS AMOUNT'', comment_line [] [], '')'', [],
            overall_comment ''orders''])
   \<and> sql_parts ascii_upper ''orders'' \<lparr>primary_keys = None,
       columns = Some [(''amount'', \<lparr>info_type = None, info_comment = None\<rparr>)]\<rparr> ''orders''
     = Inl KeyError"
  by code_simp

section \<open>The key clause\<close>

lemma join_empty_iff: "join '', '' xs = [] \<longleftrightarrow> xs = [] \<or> xs = [[]]"
proof (cases xs)
  case Nil
  then show ?thesis by simp
next
  case (Cons x ys)
  then show ?thesis by (cases ys) auto
qed

lemma map_upper_empty:
  assumes "\<And>s. upper s = [] \<longleftrightarrow> s = []"
  shows "map upper ks = [[]] \<longleftrightarrow> ks = [[]]"
  by (cases ks) (auto simp: assms)

lemma pk_str_empty_iff:
  assumes "\<And>s. upper s = [] \<longleftrightarrow> s = []"
  shows "join '', '' (map upper ks) = [] \<longleftrightarrow> ks = [] \<or> ks = [[]]"
  by (simp add: join_empty_iff map_upper_empty[OF assms])

lemma no_pk_line_in_loops:
  "filter is_pk_line (fact_lines upper F) = []" "filter is_pk_line (dimension_lines upper D) = []"
proof -
  have "\<forall>l\<in>set (fact_lines upper F). \<not> is_pk_line l"
    using not_pk_lines[where F = F and upper = upper] by blast
  then show "filter is_pk_line (fact_lines upper F) = []"
    by (simp add: filter_empty_conv)
  have "\<forall>l\<in>set (dimension_lines upper D). \<not> is_pk_line l"
    using not_pk_lines[where D = D and upper = upper] by blast
  then show "filter is_pk_line (dimension_lines upper D) = []"
    by (simp add: filter_empty_conv)
qed

lemma no_pk_line_in_config: "filter is_pk_line config_lines = []"
  using other_lines_not_pk by (auto simp: filter_empty_conv)

text \<open>
  C6, as amended. \<open>upper\<close> is \<^verbatim>\<open>str.upper\<close>, which gives the empty string for the empty
  string only. For every classification whose columns all carry a type, the artifact
  has no \<^verbatim>\<open>PRIMARY KEY\<close> line when the primary-key list is empty, and none either when
  it is the list of one empty name, whose comma-join is empty. For every other list it
  has exactly one such line, in the \<^verbatim>\<open>TABLES\<close> block right after the model line, which
  lists the upper-cased keys, \<open>upper\<close> of each in the order supplied, joined by a comma
  and a space.
\<close>

theorem primary_key_clause:
  assumes "all_typed c" and "\<And>s. upper s = [] \<longleftrightarrow> s = []"
  shows "\<exists>parts. sql_parts upper m c r = Inr parts
     \<and> (primary_keys_of c = [] \<or> primary_keys_of c = [[]] \<longrightarrow> filter is_pk_line parts = [])
     \<and> (primary_keys_of c \<noteq> [] \<and> primary_keys_of c \<noteq> [[]] \<longrightarrow>
          filter is_pk_line parts
            = [''    PRIMARY KEY ('' @ join '', '' (map upper (primary_keys_of c)) @ '')'']
          \<and> (\<exists>rest. parts = config_lines
                 @ [''TABLES ('', model_line r,
                    ''    PRIMARY KEY ('' @ join '', '' (map upper (primary_keys_of c)) @ '')'',
                    '')'', []] @ rest))"
proof -
  let ?pk = "join '', '' (map upper (primary_keys_of c))"
  let ?F = "classified ''FACT'' c"
  let ?D = "classified ''DIMENSION'' c"
  let ?rest = "(if ?F \<noteq> [] then [''FACTS (''] @ fact_lines upper ?F @ ['')'', []] else [])
          @ (if ?D \<noteq> [] then [''DIMENSIONS (''] @ dimension_lines upper ?D @ ['')''] else [])
          @ [overall_comment m]"
  let ?parts = "config_lines @ [''TABLES ('', model_line r]
          @ (if ?pk \<noteq> [] then [pk_line ?pk] else []) @ ['')'', []] @ ?rest"
  have parts: "sql_parts upper m c r = Inr ?parts"
    using sql_parts_layout[OF assms(1), of upper m r] by simp
  have rest: "filter is_pk_line ?rest = []"
    using no_pk_line_in_loops other_lines_not_pk by simp
  have fixed: "\<not> is_pk_line ''TABLES (''" "\<not> is_pk_line (model_line r)"
    "\<not> is_pk_line '')''" "\<not> is_pk_line []"
    by (rule other_lines_not_pk)+
  have none: "primary_keys_of c = [] \<or> primary_keys_of c = [[]] \<longrightarrow> filter is_pk_line ?parts = []"
  proof
    assume "primary_keys_of c = [] \<or> primary_keys_of c = [[]]"
    then have "?pk = []" by (simp only: pk_str_empty_iff[OF assms(2)])
    then have "?parts = config_lines @ [''TABLES ('', model_line r] @ ['')'', []] @ ?rest"
      by simp
    then show "filter is_pk_line ?parts = []"
      using rest fixed no_pk_line_in_config by simp
  qed
  have one: "primary_keys_of c \<noteq> [] \<and> primary_keys_of c \<noteq> [[]] \<longrightarrow>
          filter is_pk_line ?parts = [''    PRIMARY KEY ('' @ ?pk @ '')'']
          \<and> (\<exists>rest. ?parts = config_lines
                 @ [''TABLES ('', model_line r, ''    PRIMARY KEY ('' @ ?pk @ '')'', '')'', []] @ rest)"
  proof
    assume "primary_keys_of c \<noteq> [] \<and> primary_keys_of c \<noteq> [[]]"
    then have "?pk \<noteq> []" by (simp only: pk_str_empty_iff[OF assms(2)]) simp
    then have eq: "?parts = config_lines @ [''TABLES ('', model_line r, pk_line ?pk, '')'', []] @ ?rest"
      by simp
    have "filter is_pk_line (config_lines @ [''TABLES ('', model_line r, pk_line ?pk, '')'', []] @ ?rest)
          = [pk_line ?pk]"
      using rest fixed no_pk_line_in_config pk_line_is_pk_line[of ?pk] by simp
    with eq have f: "filter is_pk_line ?parts = [pk_line ?pk]" by simp
    have p: "pk_line ?pk = ''    PRIMARY KEY ('' @ ?pk @ '')''"
      by (simp add: pk_line_def)
    from f p have 1: "filter is_pk_line ?parts = [''    PRIMARY KEY ('' @ ?pk @ '')'']"
      by simp
    from eq p have 2: "\<exists>rest. ?parts = config_lines
                 @ [''TABLES ('', model_line r, ''    PRIMARY KEY ('' @ ?pk @ '')'', '')'', []] @ rest"
      by simp
    from 1 2
    show "filter is_pk_line ?parts = [''    PRIMARY KEY ('' @ ?pk @ '')'']
          \<and> (\<exists>rest. ?parts = config_lines
                 @ [''TABLES ('', model_line r, ''    PRIMARY KEY ('' @ ?pk @ '')'', '')'', []] @ rest)"
      by (rule conjI)
  qed
  from parts none one show ?thesis by blast
qed

theorem primary_key_clause_witness:
  "all_typed \<lparr>primary_keys = Some [''id'', ''Created_At''], columns = None\<rparr>
   \<and> (\<forall>s. ascii_upper s = [] \<longleftrightarrow> s = [])
   \<and> primary_keys_of \<lparr>primary_keys = Some [''id'', ''Created_At''], columns = None\<rparr> = [''id'', ''Created_At'']
   \<and> filter is_pk_line (projr (sql_parts ascii_upper ''orders''
         \<lparr>primary_keys = Some [''id'', ''Created_At''], columns = None\<rparr> ''orders''))
       = [''    PRIMARY KEY (ID, CREATED_AT)'']"
proof -
  let ?c = "\<lparr>primary_keys = Some [''id'', ''Created_At''], columns = None\<rparr>"
  have t: "all_typed ?c"
    by (simp add: all_typed_def columns_info_of_def)
  have h: "ascii_upper s = [] \<longleftrightarrow> s = []" for s
    by (simp add: ascii_upper_def)
  have k: "primary_keys_of ?c = [''id'', ''Created_At'']"
    by (simp add: primary_keys_of_def)
  have u: "''    PRIMARY KEY ('' @ join '', '' (map ascii_upper [''id'', ''Created_At'']) @ '')''
           = ''    PRIMARY KEY (ID, CREATED_AT)''"
    by code_simp
  from primary_key_clause[OF t h, of "''orders''" "''orders''"] k
  have "filter is_pk_line (projr (sql_parts ascii_upper ''orders'' ?c ''orders''))
        = [''    PRIMARY KEY ('' @ join '', '' (map ascii_upper [''id'', ''Created_At'']) @ '')'']"
    by auto
  with u have "filter is_pk_line (projr (sql_parts ascii_upper ''orders'' ?c ''orders''))
        = [''    PRIMARY KEY (ID, CREATED_AT)'']"
    by simp
  with t k h show ?thesis by blast
qed

text \<open>
  C6, as stated, fails: the primary-key list \<^verbatim>\<open>[""]\<close> is not empty, yet its join is the
  empty string and the artifact has no \<^verbatim>\<open>PRIMARY KEY\<close> line.
\<close>

theorem primary_key_clause_counterexample:
  "primary_keys_of \<lparr>primary_keys = Some [[]], columns = None\<rparr> = [[]]
   \<and> sql_parts ascii_upper ''orders'' \<lparr>primary_keys = Some [[]], columns = None\<rparr> ''orders''
     = Inr (config_lines @ [''TABLES ('', model_line ''orders'', '')'', [], overall_comment ''orders''])
   \<and> filter is_pk_line
        (config_lines @ [''TABLES ('', model_line ''orders'', '')'', [], overall_comment ''orders'']) = []"
  by code_simp

section \<open>Names in the artifact\<close>

lemma concat_singletons: "concat (map (\<lambda>x. [g x]) ys) = map g ys"
  by (induction ys) simp_all

lemma fact_column_lines:
  "filter is_column_line (fact_lines upper F) = map (\<lambda>x. column_line upper (fst x)) F"
proof -
  have p: "filter is_column_line
             ((\<lambda>(i, (col, info)).
                (let comment = comment_of info;
                     comma = (if i < length F - 1 then '','' else [])
                 in [column_line upper col, comment_line comment comma])) q)
           = [column_line upper (fst (snd q))]" for q
    by (simp add: split_beta Let_def column_line_is_column_line other_lines_not_column)
  have "filter is_column_line (fact_lines upper F)
        = concat (map (\<lambda>q. [column_line upper (fst (snd q))]) (enumerate 0 F))"
    unfolding fact_lines_def filter_concat map_map comp_def p ..
  also have "\<dots> = map (\<lambda>q. column_line upper (fst (snd q))) (enumerate 0 F)"
    by (rule concat_singletons)
  also have "\<dots> = map (\<lambda>x. column_line upper (fst x)) (map snd (enumerate 0 F))"
    by (simp only: map_map comp_def)
  also have "\<dots> = map (\<lambda>x. column_line upper (fst x)) F"
    by (simp only: map_snd_enumerate)
  finally show ?thesis .
qed

lemma dimension_column_lines:
  "filter is_column_line (dimension_lines upper D)
   = map (\<lambda>q. column_line upper (fst (snd q))
                @ (if comment_of (snd (snd q)) \<noteq> [] then []
                   else if fst q < length D - 1 then '','' else []))
       (enumerate 0 D)"
proof -
  have p: "filter is_column_line
             ((\<lambda>(i, (col, info)).
                (let comment = comment_of info;
                     comma = (if i < length D - 1 then '','' else [])
                 in if comment \<noteq> [] then [column_line upper col, comment_line comment comma]
                    else [column_line upper col @ comma])) q)
           = [column_line upper (fst (snd q))
                @ (if comment_of (snd (snd q)) \<noteq> [] then []
                   else if fst q < length D - 1 then '','' else [])]" for q
    by (simp add: split_beta Let_def column_line_is_column_line other_lines_not_column)
  have "filter is_column_line (dimension_lines upper D)
        = concat (map (\<lambda>q. [column_line upper (fst (snd q))
                @ (if comment_of (snd (snd q)) \<noteq> [] then []
                   else if fst q < length D - 1 then '','' else [])]) (enumerate 0 D))"
    unfolding dimension_lines_def filter_concat map_map comp_def p ..
  then show ?thesis
    by (simp only: concat_singletons)
qed

lemma dimension_column_lines_all2:
  "list_all2 (\<lambda>l x. l = column_line upper (fst x) \<or> l = column_line upper (fst x) @ '','')
     (filter is_column_line (dimension_lines upper D)) D"
proof -
  let ?h = "\<lambda>q. column_line upper (fst (snd q))
                @ (if comment_of (snd (snd q)) \<noteq> [] then []
                   else if fst q < length D - 1 then '','' else [])"
  have "list_all2 (\<lambda>l x. l = column_line upper (fst x) \<or> l = column_line upper (fst x) @ '','')
          (map ?h (enumerate 0 D)) D"
  proof (rule list_all2_all_nthI)
    show "length (map ?h (enumerate 0 D)) = length D"
      by simp
  next
    fix n
    assume "n < length (map ?h (enumerate 0 D))"
    then have n: "n < length D"
      by simp
    then have "map ?h (enumerate 0 D) ! n = ?h (n, D ! n)"
      by (simp add: nth_enumerate_eq)
    then show "map ?h (enumerate 0 D) ! n = column_line upper (fst (D ! n))
             \<or> map ?h (enumerate 0 D) ! n = column_line upper (fst (D ! n)) @ '',''"
      by simp
  qed
  then show ?thesis
    by (simp only: dimension_column_lines)
qed

lemma fact_column_lines_all2:
  "list_all2 (\<lambda>l x. l = column_line upper (fst x) \<or> l = column_line upper (fst x) @ '','')
     (filter is_column_line (fact_lines upper F)) F"
  unfolding fact_column_lines by (simp add: list_all2_map1 list_all2_same)

lemma no_column_line_in_config: "filter is_column_line config_lines = []"
  using other_lines_not_column by (auto simp: filter_empty_conv)

lemma column_lines_of_parts:
  assumes "all_typed c"
  shows "\<exists>parts. sql_parts upper m c r = Inr parts
     \<and> filter is_column_line parts
       = filter is_column_line (fact_lines upper (classified ''FACT'' c))
         @ filter is_column_line (dimension_lines upper (classified ''DIMENSION'' c))"
proof -
  let ?pk = "join '', '' (map upper (primary_keys_of c))"
  let ?F = "classified ''FACT'' c"
  let ?D = "classified ''DIMENSION'' c"
  let ?parts = "config_lines @ [''TABLES ('', model_line r]
          @ (if ?pk \<noteq> [] then [pk_line ?pk] else []) @ ['')'', []]
          @ (if ?F \<noteq> [] then [''FACTS (''] @ fact_lines upper ?F @ ['')'', []] else [])
          @ (if ?D \<noteq> [] then [''DIMENSIONS (''] @ dimension_lines upper ?D @ ['')''] else [])
          @ [overall_comment m]"
  have parts: "sql_parts upper m c r = Inr ?parts"
    using sql_parts_layout[OF assms, of upper m r] by simp
  have f0: "fact_lines upper [] = []" and d0: "dimension_lines upper [] = []"
    by (simp_all add: fact_lines_def dimension_lines_def)
  have f: "filter is_column_line (if ?F \<noteq> [] then [''FACTS (''] @ fact_lines upper ?F @ ['')'', []] else [])
           = filter is_column_line (fact_lines upper ?F)"
    using f0 by (simp add: other_lines_not_column)
  have d: "filter is_column_line (if ?D \<noteq> [] then [''DIMENSIONS (''] @ dimension_lines upper ?D @ ['')''] else [])
           = filter is_column_line (dimension_lines upper ?D)"
    using d0 by (simp add: other_lines_not_column)
  have t: "filter is_column_line ([''TABLES ('', model_line r]
          @ (if ?pk \<noteq> [] then [pk_line ?pk] else []) @ ['')'', []]) = []"
    by (simp add: other_lines_not_column)
  have o: "filter is_column_line [overall_comment m] = []"
    by (simp add: other_lines_not_column)
  have "filter is_column_line ?parts
        = filter is_column_line config_lines
          @ filter is_column_line ([''TABLES ('', model_line r]
              @ (if ?pk \<noteq> [] then [pk_line ?pk] else []) @ ['')'', []])
          @ filter is_column_line (if ?F \<noteq> [] then [''FACTS (''] @ fact_lines upper ?F @ ['')'', []] else [])
          @ filter is_column_line (if ?D \<noteq> [] then [''DIMENSIONS (''] @ dimension_lines upper ?D @ ['')''] else [])
          @ filter is_column_line [overall_comment m]"
    by (simp only: filter_append append_assoc)
  also have "\<dots> = filter is_column_line (fact_lines upper ?F) @ filter is_column_line (dimension_lines upper ?D)"
    by (simp only: no_column_line_in_config t f d o append_Nil append_Nil2)
  finally have "filter is_column_line ?parts
        = filter is_column_line (fact_lines upper ?F) @ filter is_column_line (dimension_lines upper ?D)" .
  with parts show ?thesis
    by (intro exI[of _ ?parts] conjI)
qed

lemma pk_lines_of_parts:
  assumes "all_typed c"
  shows "\<exists>parts. sql_parts upper m c r = Inr parts
     \<and> filter is_pk_line parts
       = (if join '', '' (map upper (primary_keys_of c)) = [] then []
          else [pk_line (join '', '' (map upper (primary_keys_of c)))])"
proof -
  let ?pk = "join '', '' (map upper (primary_keys_of c))"
  let ?F = "classified ''FACT'' c"
  let ?D = "classified ''DIMENSION'' c"
  let ?rest = "(if ?F \<noteq> [] then [''FACTS (''] @ fact_lines upper ?F @ ['')'', []] else [])
          @ (if ?D \<noteq> [] then [''DIMENSIONS (''] @ dimension_lines upper ?D @ ['')''] else [])
          @ [overall_comment m]"
  let ?parts = "config_lines @ [''TABLES ('', model_line r]
          @ (if ?pk \<noteq> [] then [pk_line ?pk] else []) @ ['')'', []] @ ?rest"
  have parts: "sql_parts upper m c r = Inr ?parts"
    using sql_parts_layout[OF assms, of upper m r] by simp
  have rest: "filter is_pk_line ?rest = []"
    using no_pk_line_in_loops other_lines_not_pk by simp
  have t: "filter is_pk_line ([''TABLES ('', model_line r]
          @ (if ?pk \<noteq> [] then [pk_line ?pk] else []) @ ['')'', []])
         = (if ?pk = [] then [] else [pk_line ?pk])"
    by (simp add: other_lines_not_pk pk_line_is_pk_line)
  have "filter is_pk_line ?parts
        = filter is_pk_line config_lines
          @ filter is_pk_line ([''TABLES ('', model_line r]
              @ (if ?pk \<noteq> [] then [pk_line ?pk] else []) @ ['')'', []])
          @ filter is_pk_line ?rest"
    by (simp only: filter_append append_assoc)
  also have "\<dots> = (if ?pk = [] then [] else [pk_line ?pk])"
    by (simp only: no_pk_line_in_config t rest append_Nil append_Nil2)
  finally have "filter is_pk_line ?parts = (if ?pk = [] then [] else [pk_line ?pk])" .
  with parts show ?thesis
    by (intro exI[of _ ?parts] conjI)
qed

text \<open>
  C7. \<open>upper\<close> is \<^verbatim>\<open>str.upper\<close>. For every classification whose columns all carry a type,
  the \<^verbatim>\<open>PRIMARY KEY\<close> line of the artifact, if there is one, lists \<open>upper\<close> of every
  primary-key name, and the column-reference lines of the artifact are, in order, those
  of the \<^verbatim>\<open>FACT\<close> columns and then those of the \<^verbatim>\<open>DIMENSION\<close> columns, one for each
  classified column, each of them \<^verbatim>\<open>model.<NAME> AS <NAME>\<close> with \<open>upper\<close> of the column name
  in both places (and a comma after it for a dimension without comment that is not the
  last). No name enters these lines other than through \<open>upper\<close>.
\<close>

theorem upper_casing:
  assumes "all_typed c"
  shows "\<exists>parts. sql_parts upper m c r = Inr parts
     \<and> filter is_pk_line parts
       = (if join '', '' (map upper (primary_keys_of c)) = [] then []
          else [''    PRIMARY KEY ('' @ join '', '' (map upper (primary_keys_of c)) @ '')''])
     \<and> list_all2 (\<lambda>l x. l = ''  model.'' @ upper (fst x) @ '' AS '' @ upper (fst x)
                      \<or> l = ''  model.'' @ upper (fst x) @ '' AS '' @ upper (fst x) @ '','')
         (filter is_column_line parts) (classified ''FACT'' c @ classified ''DIMENSION'' c)"
proof -
  let ?pk = "join '', '' (map upper (primary_keys_of c))"
  let ?F = "classified ''FACT'' c"
  let ?D = "classified ''DIMENSION'' c"
  let ?R = "\<lambda>l x. l = column_line upper (fst x) \<or> l = column_line upper (fst x) @ '',''"
  obtain parts where parts: "sql_parts upper m c r = Inr parts"
    and pk: "filter is_pk_line parts = (if ?pk = [] then [] else [pk_line ?pk])"
    using pk_lines_of_parts[OF assms, of upper m r] by (elim exE conjE)
  obtain parts' where parts': "sql_parts upper m c r = Inr parts'"
    and cols: "filter is_column_line parts'
       = filter is_column_line (fact_lines upper ?F) @ filter is_column_line (dimension_lines upper ?D)"
    using column_lines_of_parts[OF assms, of upper m r] by (elim exE conjE)
  from parts parts' have same: "parts' = parts"
    by simp
  have "list_all2 ?R (filter is_column_line (fact_lines upper ?F) @ filter is_column_line (dimension_lines upper ?D))
          (?F @ ?D)"
    using fact_column_lines_all2 dimension_column_lines_all2 by (rule list_all2_appendI)
  with cols same have all2: "list_all2 ?R (filter is_column_line parts) (?F @ ?D)"
    by simp
  have 1: "filter is_pk_line parts
       = (if ?pk = [] then [] else [''    PRIMARY KEY ('' @ ?pk @ '')''])"
    unfolding pk by (simp add: pk_line_def)
  have 2: "list_all2 (\<lambda>l x. l = ''  model.'' @ upper (fst x) @ '' AS '' @ upper (fst x)
                      \<or> l = ''  model.'' @ upper (fst x) @ '' AS '' @ upper (fst x) @ '','')
         (filter is_column_line parts) (?F @ ?D)"
    using all2 by (simp add: column_line_def)
  from parts 1 2 show ?thesis
    by (intro exI[of _ parts] conjI)
qed

theorem upper_casing_witness:
  "all_typed \<lparr>primary_keys = Some [''order_id'', ''Created_At''],
       columns = Some [(''Amount'', \<lparr>info_type = Some ''FACT'', info_comment = Some ''Total''\<rparr>),
                       (''customer_Name'', \<lparr>info_type = Some ''DIMENSION'', info_comment = None\<rparr>),
                       (''region'', \<lparr>info_type = Some ''DIMENSION'', info_comment = Some ''Region''\<rparr>)]\<rparr>
   \<and> filter is_pk_line (projr (sql_parts ascii_upper ''orders''
       \<lparr>primary_keys = Some [''order_id'', ''Created_At''],
       columns = Some [(''Amount'', \<lparr>info_type = Some ''FACT'', info_comment = Some ''Total''\<rparr>),
                       (''customer_Name'', \<lparr>info_type = Some ''DIMENSION'', info_comment = None\<rparr>),
                       (''region'', \<lparr>info_type = Some ''DIMENSION'', info_comment = Some ''Region''\<rparr>)]\<rparr>
       ''orders''))
     = [''    PRIMARY KEY (ORDER_ID, CREATED_AT)'']
   \<and> filter is_column_line (projr (sql_parts ascii_upper ''orders''
       \<lparr>primary_keys = Some [''order_id'', ''Created_At''],
       columns = Some [(''Amount'', \<lparr>info_type = Some ''FACT'', info_comment = Some ''Total''\<rparr>),
                       (''customer_Name'', \<lparr>info_type = Some ''DIMENSION'', info_comment = None\<rparr>),
                       (''region'', \<lparr>info_type = Some ''DIMENSION'', info_comment = Some ''Region''\<rparr>)]\<rparr>
       ''orders''))
     = [''  model.AMOUNT AS AMOUNT'', ''  model.CUSTOMER_NAME AS CUSTOMER_NAME,'',
        ''  model.REGION AS REGION'']"
proof -
  let ?c = "\<lparr>primary_keys = Some [''order_id'', ''Created_At''],
       columns = Some [(''Amount'', \<lparr>info_type = Some ''FACT'', info_comment = Some ''Total''\<rparr>),
                       (''customer_Name'', \<lparr>info_type = Some ''DIMENSION'', info_comment = None\<rparr>),
                       (''region'', \<lparr>info_type = Some ''DIMENSION'', info_comment = Some ''Region''\<rparr>)]\<rparr>"
  have t: "all_typed ?c"
    by (simp add: all_typed_def columns_info_of_def)
  have k: "primary_keys_of ?c = [''order_id'', ''Created_At'']"
    by (simp add: primary_keys_of_def)
  have j: "join '', '' (map ascii_upper [''order_id'', ''Created_At'']) = ''ORDER_ID, CREATED_AT''"
    by code_simp
  have cl: "filter is_column_line (projr (sql_parts ascii_upper ''orders'' ?c ''orders''))
     = [''  model.AMOUNT AS AMOUNT'', ''  model.CUSTOMER_NAME AS CUSTOMER_NAME,'',
        ''  model.REGION AS REGION'']"
    by code_simp
  from upper_casing[OF t, of ascii_upper "''orders''" "''orders''"]
  obtain parts where p: "sql_parts ascii_upper ''orders'' ?c ''orders'' = Inr parts"
    and pk: "filter is_pk_line parts
       = (if join '', '' (map ascii_upper (primary_keys_of ?c)) = [] then []
          else [''    PRIMARY KEY ('' @ join '', '' (map ascii_upper (primary_keys_of ?c)) @ '')''])"
    by (elim exE conjE)
  from pk have "filter is_pk_line parts = [''    PRIMARY KEY (ORDER_ID, CREATED_AT)'']"
    unfolding k j by simp
  with p have pl: "filter is_pk_line (projr (sql_parts ascii_upper ''orders'' ?c ''orders''))
     = [''    PRIMARY KEY (ORDER_ID, CREATED_AT)'']"
    by simp
  show ?thesis
    by (intro conjI) (fact t, fact pl, fact cl)
qed

end
